theory Spec2Isabelle
  imports Complex_Main "HOL-Library.AList" "HOL-Library.Char_ord" "HOL-Library.List_Lexorder"
    "HOL-Library.Log_Nat"
begin

section \<open>JavaScript values used by the dashboard\<close>

text \<open>
  The three components (lobby query, stakes table, flush transaction aggregation) are
  TypeScript running in a browser. Their strings are modelled as \<^typ>\<open>string\<close>, one
  \<^typ>\<open>char\<close> per UTF-16 code unit below 256: case mapping and white space below are
  those of JavaScript on that range, and the model says nothing about strings with code
  units from 256 on.

  A JavaScript number is modelled in two ways. For the flush pipeline and the filter of
  the stakes table it is a \<open>jsnum\<close>: a finite value, the two infinities or NaN, where
  finite arithmetic is exact rational arithmetic (the rounding of IEEE doubles, the
  overflow of large finite values to an infinity, the underflow of small ones to zero
  and the sign of zero are not modelled there) and the non-finite cases follow IEEE: NaN
  is absorbing, opposite infinities add to NaN, every comparison with NaN is false. For
  the ROI of the stakes table, where the rounding and the sign of zero decide the
  result, it is a \<open>double\<close> (below), with the arithmetic of IEEE 754 binary64. Equality
  of numbers in the statements below is identity of values, so NaN is equal to itself
  there.
\<close>

datatype jsnum = Fin rat | PInf | NInf | NaN

fun js_add :: "jsnum \<Rightarrow> jsnum \<Rightarrow> jsnum" where
  "js_add (Fin a) (Fin b) = Fin (a + b)"
| "js_add NaN _ = NaN"
| "js_add _ NaN = NaN"
| "js_add PInf NInf = NaN"
| "js_add NInf PInf = NaN"
| "js_add PInf _ = PInf"
| "js_add _ PInf = PInf"
| "js_add NInf _ = NInf"
| "js_add _ NInf = NInf"

text \<open>The sign of a number: \<open>1\<close>, \<open>-1\<close> or \<open>0\<close>; only used on values other than NaN.\<close>

fun js_sgn :: "jsnum \<Rightarrow> int" where
  "js_sgn (Fin a) = (if 0 < a then 1 else if a < 0 then - 1 else 0)"
| "js_sgn PInf = 1"
| "js_sgn NInf = - 1"
| "js_sgn NaN = 0"

definition js_inf :: "int \<Rightarrow> jsnum" where
  "js_inf s = (if 0 < s then PInf else if s < 0 then NInf else NaN)"

fun js_mul :: "jsnum \<Rightarrow> jsnum \<Rightarrow> jsnum" where
  "js_mul (Fin a) (Fin b) = Fin (a * b)"
| "js_mul NaN _ = NaN"
| "js_mul _ NaN = NaN"
| "js_mul x y = js_inf (js_sgn x * js_sgn y)"

fun js_lt :: "jsnum \<Rightarrow> jsnum \<Rightarrow> bool" where
  "js_lt (Fin a) (Fin b) = (a < b)"
| "js_lt NaN _ = False"
| "js_lt _ NaN = False"
| "js_lt _ NInf = False"
| "js_lt PInf _ = False"
| "js_lt NInf _ = True"
| "js_lt _ PInf = True"

definition js_gt :: "jsnum \<Rightarrow> jsnum \<Rightarrow> bool" where
  "js_gt x y = js_lt y x"

text \<open>\<open>x <= y\<close> of JavaScript: false as soon as one side is NaN.\<close>

definition js_le :: "jsnum \<Rightarrow> jsnum \<Rightarrow> bool" where
  "js_le x y = (x \<noteq> NaN \<and> y \<noteq> NaN \<and> \<not> js_lt y x)"

text \<open>Truthiness of a number: everything but \<open>0\<close> and NaN. \<open>x || y\<close> on numbers.\<close>

fun truthy :: "jsnum \<Rightarrow> bool" where
  "truthy (Fin a) = (a \<noteq> 0)"
| "truthy NaN = False"
| "truthy _ = True"

definition js_or :: "jsnum \<Rightarrow> jsnum \<Rightarrow> jsnum" where
  "js_or x y = (if truthy x then x else y)"

subsection \<open>Strings\<close>

text \<open>
  White space as \<open>String.prototype.trim\<close> and the numeric parsers skip it (tab, line
  feed, vertical tab, form feed, carriage return, space, no-break space), and the simple
  case mapping of \<open>toLowerCase\<close> (A to Z, and the capital letters of Latin-1).
\<close>

definition is_ws :: "char \<Rightarrow> bool" where
  "is_ws c = (of_char c \<in> {9, 10, 11, 12, 13, 32, 160 :: nat})"

definition lower_char :: "char \<Rightarrow> char" where
  "lower_char c = (let n = (of_char c :: nat) in
     if (65 \<le> n \<and> n \<le> 90) \<or> (192 \<le> n \<and> n \<le> 222 \<and> n \<noteq> 215)
     then char_of (n + 32) else c)"

definition toLowerCase :: "string \<Rightarrow> string" where
  "toLowerCase s = map lower_char s"

definition trim :: "string \<Rightarrow> string" where
  "trim s = rev (dropWhile is_ws (rev (dropWhile is_ws s)))"

text \<open>
  \<open>s.split(sep)\<close> for a one-character separator: one piece more than there are
  separators, so the empty string splits into one empty piece.
\<close>

fun split :: "char \<Rightarrow> string \<Rightarrow> string list" where
  "split sep [] = [[]]"
| "split sep (c # cs) =
     (if c = sep then [] # split sep cs
      else (case split sep cs of [] \<Rightarrow> [[c]] | w # ws \<Rightarrow> (c # w) # ws))"

definition startsWith :: "string \<Rightarrow> string \<Rightarrow> bool" where
  "startsWith s p = (take (length p) s = p)"

text \<open>\<open>s.includes(p)\<close>: \<open>p\<close> occurs in \<open>s\<close> as a substring.\<close>

fun includes_str :: "string \<Rightarrow> string \<Rightarrow> bool" where
  "includes_str [] p = (p = [])"
| "includes_str (c # cs) p = (startsWith (c # cs) p \<or> includes_str cs p)"

subsection \<open>Parsing numbers\<close>

definition is_digit :: "char \<Rightarrow> bool" where
  "is_digit c = (c \<in> set ''0123456789'')"

definition digit_val :: "char \<Rightarrow> int" where
  "digit_val c = of_char c - 48"

definition digits_val :: "string \<Rightarrow> int" where
  "digits_val ds = foldl (\<lambda>a c. 10 * a + digit_val c) 0 ds"

definition is_hex_digit :: "char \<Rightarrow> bool" where
  "is_hex_digit c = (c \<in> set ''0123456789abcdefABCDEF'')"

definition hex_digit_val :: "char \<Rightarrow> int" where
  "hex_digit_val c =
     (if is_digit c then of_char c - 48
      else if c \<in> set ''abcdef'' then of_char c - 87 else of_char c - 55)"

definition hex_digits_val :: "string \<Rightarrow> int" where
  "hex_digits_val ds = foldl (\<lambda>a c. 16 * a + hex_digit_val c) 0 ds"

text \<open>An optional sign in front of a numeral: the sign and the rest of the string.\<close>

definition take_sign :: "string \<Rightarrow> rat \<times> string" where
  "take_sign s =
     (case s of
        c # cs \<Rightarrow> if c = CHR ''-'' then (- 1, cs) else if c = CHR ''+'' then (1, cs) else (1, s)
      | [] \<Rightarrow> (1, s))"

definition pow10 :: "int \<Rightarrow> rat" where
  "pow10 e = (if 0 \<le> e then 10 ^ nat e else 1 / 10 ^ nat (- e))"

text \<open>
  The exponent part of a decimal literal: \<open>e\<close> or \<open>E\<close>, an optional sign and at least
  one digit; anything else is no exponent part and the exponent is \<open>0\<close>.
\<close>

definition exponent_part :: "string \<Rightarrow> int" where
  "exponent_part s =
     (case s of
        c # cs \<Rightarrow>
          if c = CHR ''e'' \<or> c = CHR ''E'' then
            (let (sgn, r) = take_sign cs; ds = takeWhile is_digit r
             in if ds = [] then 0 else (if sgn < 0 then - digits_val ds else digits_val ds))
          else 0
      | [] \<Rightarrow> 0)"

text \<open>
  \<open>parseFloat\<close>: leading white space is skipped, then the longest prefix that is a
  decimal literal (sign, \<open>Infinity\<close>, or digits with an optional fraction and exponent) is
  read; NaN when there is none. The value is the exact decimal.
\<close>

definition parseFloat :: "string \<Rightarrow> jsnum" where
  "parseFloat s =
     (let (sgn, u) = take_sign (dropWhile is_ws s) in
      if startsWith u ''Infinity'' then (if sgn < 0 then NInf else PInf)
      else
        (let ip = takeWhile is_digit u;
             r1 = dropWhile is_digit u;
             (fp, r2) = (case r1 of
                           c # cs \<Rightarrow> if c = CHR ''.''
                                     then (takeWhile is_digit cs, dropWhile is_digit cs)
                                     else ([], r1)
                         | [] \<Rightarrow> ([], r1))
         in if ip = [] \<and> fp = [] then NaN
            else Fin (sgn * (of_int (digits_val (ip @ fp)) / 10 ^ length fp)
                        * pow10 (exponent_part r2))))"

text \<open>
  \<open>parseInt\<close> without a radix: white space, an optional sign, then hexadecimal digits
  after \<open>0x\<close> or \<open>0X\<close> and decimal digits otherwise; NaN when there is no digit.
\<close>

definition parseInt :: "string \<Rightarrow> jsnum" where
  "parseInt s =
     (let (sgn, u) = take_sign (dropWhile is_ws s) in
      if startsWith u ''0x'' \<or> startsWith u ''0X'' then
        (let ds = takeWhile is_hex_digit (drop 2 u)
         in if ds = [] then NaN else Fin (sgn * of_int (hex_digits_val ds)))
      else
        (let ds = takeWhile is_digit u
         in if ds = [] then NaN else Fin (sgn * of_int (digits_val ds))))"

subsection \<open>Numbers as IEEE doubles\<close>

text \<open>
  The ROI of the stakes table is a chain of an addition, a subtraction and a division,
  where the rounding of each step and the sign of zero show in the result. For it the
  numbers are modelled as IEEE 754 binary64 values: \<open>DFin a\<close> is the finite value \<open>a\<close>
  (\<open>DFin 0\<close> is \<open>+0\<close>), \<open>DNegZero\<close> is \<open>-0\<close>, then the two infinities and NaN. Every
  operation computes the exact rational result and rounds it to the nearest double, ties
  to the even significand, with gradual underflow, overflow to an infinity, and the sign
  rules of IEEE for zeros and infinities.

  \<open>pow2 e\<close> is \<open>2\<close> to the power \<open>e\<close>; \<open>ilog2 a\<close>, for a positive \<open>a\<close>, is the exponent of
  the binade of \<open>a\<close>, the largest \<open>k\<close> with \<open>pow2 k <= a\<close>.
\<close>

datatype double = DFin rat | DNegZero | DPosInf | DNegInf | DNaN

definition pow2 :: "int \<Rightarrow> rat" where
  "pow2 e = (if 0 \<le> e then of_int (2 ^ nat e) else 1 / of_int (2 ^ nat (- e)))"

definition ilog2 :: "rat \<Rightarrow> int" where
  "ilog2 a =
     (case quotient_of a of
        (p, q) \<Rightarrow> (let k = bitlen p - bitlen q in if pow2 k \<le> a then k else k - 1))"

definition round_half_even :: "rat \<Rightarrow> int" where
  "round_half_even q =
     (let f = \<lfloor>q\<rfloor>; r = q - of_int f
      in if r < 1 / 2 then f else if 1 / 2 < r then f + 1 else if even f then f else f + 1)"

text \<open>
  The double nearest to a rational. The spacing of the doubles around \<open>x\<close> is \<open>pow2 e\<close>
  with \<open>e\<close> the exponent of the binade less 52, and not less than \<open>-1074\<close> (the subnormal
  range); the significand is \<open>x / pow2 e\<close> rounded to an integer. A rounded value of
  \<open>pow2 1024\<close> or more is an infinity; a rounded value of zero keeps the sign of \<open>x\<close>.
\<close>

definition round_double :: "rat \<Rightarrow> double" where
  "round_double x =
     (if x = 0 then DFin 0
      else
        (let a = \<bar>x\<bar>;
             e = max (- 1074) (ilog2 a - 52);
             m = round_half_even (a / pow2 e);
             v = of_int m * pow2 e
         in if pow2 1024 \<le> v then (if 0 < x then DPosInf else DNegInf)
            else if v = 0 then (if 0 < x then DFin 0 else DNegZero)
            else DFin (if 0 < x then v else - v)))"

fun d_finite :: "double \<Rightarrow> bool" where
  "d_finite (DFin a) = True"
| "d_finite DNegZero = True"
| "d_finite _ = False"

fun d_zero :: "double \<Rightarrow> bool" where
  "d_zero (DFin a) = (a = 0)"
| "d_zero DNegZero = True"
| "d_zero _ = False"

text \<open>The sign bit (that of NaN is never looked at) and the value of a finite double.\<close>

fun d_negative :: "double \<Rightarrow> bool" where
  "d_negative (DFin a) = (a < 0)"
| "d_negative DNegZero = True"
| "d_negative DNegInf = True"
| "d_negative _ = False"

fun d_val :: "double \<Rightarrow> rat" where
  "d_val (DFin a) = a"
| "d_val _ = 0"

definition signed_zero :: "bool \<Rightarrow> double" where
  "signed_zero sb = (if sb then DNegZero else DFin 0)"

definition signed_inf :: "bool \<Rightarrow> double" where
  "signed_inf sb = (if sb then DNegInf else DPosInf)"

fun dneg :: "double \<Rightarrow> double" where
  "dneg (DFin a) = (if a = 0 then DNegZero else DFin (- a))"
| "dneg DNegZero = DFin 0"
| "dneg DPosInf = DNegInf"
| "dneg DNegInf = DPosInf"
| "dneg DNaN = DNaN"

text \<open>
  \<open>x + y\<close>: NaN is absorbing and opposite infinities add to NaN; an exact sum of zero is
  \<open>+0\<close> unless both operands are \<open>-0\<close>. \<open>x - y\<close> is \<open>x + (-y)\<close>.
\<close>

definition dadd :: "double \<Rightarrow> double \<Rightarrow> double" where
  "dadd x y =
     (if x = DNaN \<or> y = DNaN then DNaN
      else if \<not> d_finite x then (if \<not> d_finite y \<and> x \<noteq> y then DNaN else x)
      else if \<not> d_finite y then y
      else if d_val x + d_val y = 0
      then signed_zero (d_zero x \<and> d_zero y \<and> d_negative x \<and> d_negative y)
      else round_double (d_val x + d_val y))"

definition dsub :: "double \<Rightarrow> double \<Rightarrow> double" where
  "dsub x y = dadd x (dneg y)"

text \<open>
  \<open>x * y\<close> and \<open>x / y\<close>: the sign of the result is the exclusive or of the signs of the
  operands; an infinity times zero, a zero divided by zero and an infinity divided by an
  infinity are NaN; a finite number other than zero divided by a zero is an infinity.
\<close>

definition dmul :: "double \<Rightarrow> double \<Rightarrow> double" where
  "dmul x y =
     (if x = DNaN \<or> y = DNaN then DNaN
      else if \<not> d_finite x \<or> \<not> d_finite y
      then (if d_zero x \<or> d_zero y then DNaN else signed_inf (d_negative x \<noteq> d_negative y))
      else if d_zero x \<or> d_zero y then signed_zero (d_negative x \<noteq> d_negative y)
      else round_double (d_val x * d_val y))"

definition ddiv :: "double \<Rightarrow> double \<Rightarrow> double" where
  "ddiv x y =
     (if x = DNaN \<or> y = DNaN then DNaN
      else if \<not> d_finite x
      then (if \<not> d_finite y then DNaN else signed_inf (d_negative x \<noteq> d_negative y))
      else if \<not> d_finite y then signed_zero (d_negative x \<noteq> d_negative y)
      else if d_zero y
      then (if d_zero x then DNaN else signed_inf (d_negative x \<noteq> d_negative y))
      else if d_zero x then signed_zero (d_negative x \<noteq> d_negative y)
      else round_double (d_val x / d_val y))"

text \<open>
  \<open>parseFloat\<close> with the double it returns: the literal is read as above and its decimal
  value is rounded to the nearest double (as the engines do, also for literals of more
  than twenty significant digits, where the language leaves them a choice), so that a
  large literal is an infinity and a small one a zero; a literal of value zero keeps the
  sign written in front of it (\<open>parseFloat('-0')\<close> is \<open>-0\<close>).
\<close>

definition parseFloat_double :: "string \<Rightarrow> double" where
  "parseFloat_double s =
     (case parseFloat s of
        NaN \<Rightarrow> DNaN
      | PInf \<Rightarrow> DPosInf
      | NInf \<Rightarrow> DNegInf
      | Fin q \<Rightarrow>
          if q = 0 then signed_zero (fst (take_sign (dropWhile is_ws s)) < 0)
          else round_double q)"

subsection \<open>Dates\<close>

text \<open>
  A \<open>Date\<close> object is its time value: milliseconds since the epoch, or \<open>None\<close> for an
  invalid date. How \<open>new Date(string)\<close> reads a string that is not in the ISO format is
  left to the JavaScript engine (and to the time zone of the browser), so the parser
  \<open>Date.parse\<close> is a parameter \<open>dp\<close> of the model; \<open>new Date\<close> clips its result to
  the range of valid time values.
\<close>

type_synonym Date = "int option"

definition new_Date :: "(string \<Rightarrow> int option) \<Rightarrow> string \<Rightarrow> Date" where
  "new_Date dp s =
     (case dp s of
        None \<Rightarrow> None
      | Some t \<Rightarrow> if \<bar>t\<bar> \<le> 8640000000000000 then Some t else None)"

text \<open>
  \<open>new Date(Math.min(a.getTime(), b.getTime()))\<close> and the same with \<open>Math.max\<close>: the
  time value of an invalid date is NaN, and so is then the minimum or maximum.
\<close>

definition date_min :: "Date \<Rightarrow> Date \<Rightarrow> Date" where
  "date_min a b = (case (a, b) of (Some x, Some y) \<Rightarrow> Some (min x y) | _ \<Rightarrow> None)"

definition date_max :: "Date \<Rightarrow> Date \<Rightarrow> Date" where
  "date_max a b = (case (a, b) of (Some x, Some y) \<Rightarrow> Some (max x y) | _ \<Rightarrow> None)"

text \<open>
  The civil date of a day number (days since 1970-01-01) in the proleptic Gregorian
  calendar, which is the calendar of \<open>toISOString\<close>, and the day number of a civil date.
\<close>

definition civil_from_days :: "int \<Rightarrow> int \<times> int \<times> int" where
  "civil_from_days z =
     (let z' = z + 719468;
          era = z' div 146097;
          doe = z' - era * 146097;
          yoe = (doe - doe div 1460 + doe div 36524 - doe div 146096) div 365;
          doy = doe - (365 * yoe + yoe div 4 - yoe div 100);
          mp = (5 * doy + 2) div 153;
          d = doy - (153 * mp + 2) div 5 + 1;
          m = (if mp < 10 then mp + 3 else mp - 9);
          y = yoe + era * 400
      in (if m \<le> 2 then y + 1 else y, m, d))"

definition days_from_civil :: "int \<Rightarrow> int \<Rightarrow> int \<Rightarrow> int" where
  "days_from_civil y m d =
     (let y' = (if m \<le> 2 then y - 1 else y);
          era = y' div 400;
          yoe = y' - era * 400;
          doy = (153 * (if m > 2 then m - 3 else m + 9) + 2) div 5 + d - 1;
          doe = yoe * 365 + yoe div 4 - yoe div 100 + doy
      in era * 146097 + doe - 719468)"

definition digit_char :: "nat \<Rightarrow> char" where
  "digit_char n = ''0123456789'' ! (n mod 10)"

text \<open>The last \<open>k\<close> decimal digits of \<open>n\<close>, padded with zeros.\<close>

fun pad_digits :: "nat \<Rightarrow> nat \<Rightarrow> string" where
  "pad_digits 0 n = []"
| "pad_digits (Suc k) n = pad_digits k (n div 10) @ [digit_char n]"

text \<open>
  \<open>d.toISOString().split('T')[0]\<close>: the date part \<open>YYYY-MM-DD\<close> of the ISO string of a
  valid date, with a sign and six digits for a year outside 0 to 9999; \<open>toISOString\<close>
  throws a RangeError on an invalid date, which is \<open>None\<close> here.
\<close>

definition iso_year :: "int \<Rightarrow> string" where
  "iso_year y =
     (if 0 \<le> y \<and> y \<le> 9999 then pad_digits 4 (nat y)
      else (if y < 0 then ''-'' else ''+'') @ pad_digits 6 (nat \<bar>y\<bar>))"

definition toISOString_date :: "Date \<Rightarrow> string option" where
  "toISOString_date d =
     (case d of
        None \<Rightarrow> None
      | Some t \<Rightarrow>
          (case civil_from_days (t div 86400000) of
             (y, m, dd) \<Rightarrow> Some (iso_year y @ ''-'' @ pad_digits 2 (nat m) @ ''-'' @ pad_digits 2 (nat dd))))"

text \<open>
  One engine's \<open>Date.parse\<close>, for running the model on examples: it reads the date-only
  ISO form \<open>YYYY-MM-DD\<close> (midnight UTC of that day, as the language standard fixes it)
  and rejects every other string.
\<close>

definition days_in_month :: "int \<Rightarrow> int \<Rightarrow> int" where
  "days_in_month y m =
     (if m = 2 then (if y mod 4 = 0 \<and> (y mod 100 \<noteq> 0 \<or> y mod 400 = 0) then 29 else 28)
      else if m \<in> {4, 6, 9, 11} then 30 else 31)"

definition iso_date_parse :: "string \<Rightarrow> int option" where
  "iso_date_parse s =
     (if length s = 10 \<and> s ! 4 = CHR ''-'' \<and> s ! 7 = CHR ''-''
         \<and> list_all is_digit (take 4 s @ take 2 (drop 5 s) @ drop 8 s)
      then
        (let y = digits_val (take 4 s);
             m = digits_val (take 2 (drop 5 s));
             d = digits_val (drop 8 s)
         in if 1 \<le> m \<and> m \<le> 12 \<and> 1 \<le> d \<and> d \<le> days_in_month y m
            then Some (days_from_civil y m d * 86400000) else None)
      else None)"

section \<open>Lobby query component: the address list\<close>

text \<open>
  \<^verbatim>\<open>
  const addresses = useMemo(() => {
    if (!memberAddresses) return [];
    return memberAddresses
      .split(',')
      .map(addr => addr.trim().toLowerCase())
      .filter(addr => addr.length === 42 && addr.startsWith('0x'));
  }, [memberAddresses]);
  \<close>
  The function mapped over the pieces is the normalization of the specification.
\<close>

definition normalize_addr :: "string \<Rightarrow> string" where
  "normalize_addr addr = toLowerCase (trim addr)"

definition addresses :: "string \<Rightarrow> string list" where
  "addresses memberAddresses =
     (if memberAddresses = [] then []
      else filter (\<lambda>addr. length addr = 42 \<and> startsWith addr ''0x'')
             (map normalize_addr (split (CHR '','') memberAddresses)))"

text \<open>
  The query variable \<open>memberAddresses\<close>: spread into the variables only when the list is
  not empty (\<open>...(addresses.length > 0 && { memberAddresses: addresses })\<close>).
\<close>

definition query_memberAddresses :: "string \<Rightarrow> string list option" where
  "query_memberAddresses memberAddresses =
     (if length (addresses memberAddresses) > 0 then Some (addresses memberAddresses) else None)"

section \<open>Sort handlers of the two tables\<close>

datatype SortDirection = Asc | Desc

datatype SortField =
  Start | ExpEnd | Days | HexStaked | TShares | StakeEnded |
  Yield | Minted | Roi | DaysServed | EarlyLate | Penalty

datatype FlushSortField = ByAmount | ByCount | ByDate

text \<open>
  \<^verbatim>\<open>prev => prev === 'asc' ? 'desc' : 'asc'\<close>, the functional update both handlers
  give to \<open>setSortDirection\<close>.
\<close>

definition flip_direction :: "SortDirection \<Rightarrow> SortDirection" where
  "flip_direction prev = (if prev = Asc then Desc else Asc)"

text \<open>
  The handlers act on the pair of React state variables (active field, direction); the
  model returns the pair the next render sees.
  \<^verbatim>\<open>
  const handleSort = (field: SortField) => {
    if (sortField === field) {
      setSortDirection(prev => prev === 'asc' ? 'desc' : 'asc');
    } else {
      setSortField(field);
      setSortDirection('desc');
    }
  };
  \<close>
  \<open>toggleSort\<close> of the flush table is the same code over \<open>sortBy\<close>.
\<close>

definition handleSort :: "SortField \<Rightarrow> SortField \<times> SortDirection \<Rightarrow> SortField \<times> SortDirection" where
  "handleSort field st =
     (case st of (sortField, sortDirection) \<Rightarrow>
        if sortField = field then (sortField, flip_direction sortDirection)
        else (field, Desc))"

definition toggleSort ::
  "FlushSortField \<Rightarrow> FlushSortField \<times> SortDirection \<Rightarrow> FlushSortField \<times> SortDirection" where
  "toggleSort field st =
     (case st of (sortBy, sortDirection) \<Rightarrow>
        if sortBy = field then (sortBy, flip_direction sortDirection)
        else (field, Desc))"

section \<open>Stakes query component\<close>

text \<open>
  The records of the subgraph, field for field as the type declarations have them (every
  scalar is a string); \<open>stakeEnd\<close> is absent while the stake is active. The field \<open>id\<close>
  is written \<open>id'\<close>.
\<close>

record StakeEnd =
  id' :: string
  stakerAddr :: string
  stakeId :: string
  payout :: string
  stakedHearts :: string
  stakedShares :: string
  timestamp :: string
  penalty :: string
  servedDays :: string
  daysLate :: string
  daysEarly :: string
  transactionHash :: string

record StakeStart =
  id' :: string
  stakerAddr :: string
  stakeId :: string
  stakedHearts :: string
  stakedShares :: string
  stakeTShares :: string
  stakedDays :: string
  startDay :: string
  endDay :: string
  timestamp :: string
  isAutoStake :: bool
  transactionHash :: string
  stakeEnd :: "StakeEnd option"

datatype StatusFilter = StatusAll | StatusActive | StatusEnded

record DateRange =
  range_from :: string
  range_to :: string

definition HEX_LAUNCH_TIMESTAMP :: jsnum where
  "HEX_LAUNCH_TIMESTAMP = Fin 1575331200"

definition SECONDS_PER_DAY :: jsnum where
  "SECONDS_PER_DAY = Fin 86400"

text \<open>\<open>Math.floor(new Date(s).getTime() / 1000)\<close>: NaN for an invalid date.\<close>

definition date_seconds :: "(string \<Rightarrow> int option) \<Rightarrow> string \<Rightarrow> jsnum" where
  "date_seconds dp s = (case new_Date dp s of None \<Rightarrow> NaN | Some t \<Rightarrow> Fin (of_int (t div 1000)))"

text \<open>
  The predicate given to \<open>data.stakeStarts.filter\<close>, with its early returns in the order
  of the source:
  \<^verbatim>\<open>
  if (statusFilter === 'active' && stake.stakeEnd) return false;
  if (statusFilter === 'ended' && !stake.stakeEnd) return false;
  if (searchAddress.trim() &&
      !stake.stakerAddr.toLowerCase().includes(searchAddress.toLowerCase())) return false;
  const startTimestamp = parseInt(stake.timestamp);
  const startFrom = Math.floor(new Date(startDateRange.from).getTime() / 1000);
  const startTo = Math.floor(new Date(startDateRange.to).getTime() / 1000);
  if (startTimestamp < startFrom || startTimestamp > startTo) return false;
  const endTimestamp = HEX_LAUNCH_TIMESTAMP + (parseInt(stake.endDay) * SECONDS_PER_DAY);
  const endFrom = Math.floor(new Date(endDateRange.from).getTime() / 1000);
  const endTo = Math.floor(new Date(endDateRange.to).getTime() / 1000);
  if (endTimestamp < endFrom || endTimestamp > endTo) return false;
  return true;
  \<close>
\<close>

definition stake_filter ::
  "(string \<Rightarrow> int option) \<Rightarrow> StatusFilter \<Rightarrow> string \<Rightarrow> DateRange \<Rightarrow> DateRange \<Rightarrow> StakeStart \<Rightarrow> bool" where
  "stake_filter dp statusFilter searchAddress startDateRange endDateRange stake =
     (if statusFilter = StatusActive \<and> stakeEnd stake \<noteq> None then False
      else if statusFilter = StatusEnded \<and> stakeEnd stake = None then False
      else if trim searchAddress \<noteq> []
              \<and> \<not> includes_str (toLowerCase (StakeStart.stakerAddr stake)) (toLowerCase searchAddress)
      then False
      else
        (let startTimestamp = parseInt (StakeStart.timestamp stake);
             startFrom = date_seconds dp (range_from startDateRange);
             startTo = date_seconds dp (range_to startDateRange)
         in if js_lt startTimestamp startFrom \<or> js_gt startTimestamp startTo then False
            else
              (let endTimestamp =
                     js_add HEX_LAUNCH_TIMESTAMP (js_mul (parseInt (endDay stake)) SECONDS_PER_DAY);
                   endFrom = date_seconds dp (range_from endDateRange);
                   endTo = date_seconds dp (range_to endDateRange)
               in if js_lt endTimestamp endFrom \<or> js_gt endTimestamp endTo then False
                  else True)))"

text \<open>\<open>filteredStakes\<close>: the empty list while there is no data, else the filtered page.\<close>

definition filteredStakes ::
  "(string \<Rightarrow> int option) \<Rightarrow> StatusFilter \<Rightarrow> string \<Rightarrow> DateRange \<Rightarrow> DateRange
     \<Rightarrow> StakeStart list option \<Rightarrow> StakeStart list" where
  "filteredStakes dp statusFilter searchAddress startDateRange endDateRange stakeStarts =
     (case stakeStarts of
        None \<Rightarrow> []
      | Some stakes \<Rightarrow>
          filter (stake_filter dp statusFilter searchAddress startDateRange endDateRange) stakes)"

text \<open>
  The ROI of the comparator of \<open>sortedStakes\<close> (case \<open>'roi'\<close>), in double arithmetic:
  \<^verbatim>\<open>
  const aStaked = parseFloat(a.stakedHearts);
  const roiMintedA = a.stakeEnd ? parseFloat(a.stakeEnd.payout) + aStaked : 0;
  const aRoi = a.stakeEnd ? ((roiMintedA - aStaked) / aStaked) : 0;
  ...
  return (aRoi - bRoi) * direction;
  \<close>
  with \<open>const direction = sortDirection === 'asc' ? 1 : -1\<close>.
\<close>

definition sort_roi :: "StakeStart \<Rightarrow> double" where
  "sort_roi a =
     (let aStaked = parseFloat_double (StakeStart.stakedHearts a);
          roiMintedA = (case stakeEnd a of
                          Some e \<Rightarrow> dadd (parseFloat_double (StakeEnd.payout e)) aStaked
                        | None \<Rightarrow> DFin 0)
      in (case stakeEnd a of
            Some e \<Rightarrow> ddiv (dsub roiMintedA aStaked) aStaked
          | None \<Rightarrow> DFin 0))"

definition direction_factor :: "SortDirection \<Rightarrow> double" where
  "direction_factor sortDirection = (if sortDirection = Asc then DFin 1 else DFin (- 1))"

definition compare_roi :: "SortDirection \<Rightarrow> StakeStart \<Rightarrow> StakeStart \<Rightarrow> double" where
  "compare_roi sortDirection a b =
     dmul (dsub (sort_roi a) (sort_roi b)) (direction_factor sortDirection)"

text \<open>
  The number of the ROI cell of the table, before \<open>.toFixed(2)\<close> and the percent sign
  (\<open>None\<close> is the cell \<open>'-'\<close> of a stake without a StakeEnd):
  \<^verbatim>\<open>
  stake.stakeEnd ?
    `${(((parseFloat(stake.stakeEnd.payout) + parseFloat(stake.stakedHearts)
          - parseFloat(stake.stakedHearts)) / parseFloat(stake.stakedHearts)) * 100).toFixed(2)}%`
    : '-'
  \<close>
\<close>

definition roi_cell :: "StakeStart \<Rightarrow> double option" where
  "roi_cell stake =
     (case stakeEnd stake of
        Some e \<Rightarrow>
          Some (dmul
                  (ddiv
                     (dsub (dadd (parseFloat_double (StakeEnd.payout e))
                                 (parseFloat_double (StakeStart.stakedHearts stake)))
                           (parseFloat_double (StakeStart.stakedHearts stake)))
                     (parseFloat_double (StakeStart.stakedHearts stake)))
                  (DFin 100))
      | None \<Rightarrow> None)"

text \<open>A stake of 0 hearts, ended with a payout of 500 or still active, and two date ranges.\<close>

definition example_end :: StakeEnd where
  "example_end = \<lparr> StakeEnd.id' = ''e1'', StakeEnd.stakerAddr = ''0xAbC'', StakeEnd.stakeId = ''7'', payout = ''500'',
     StakeEnd.stakedHearts = ''0'', StakeEnd.stakedShares = ''1'', StakeEnd.timestamp = ''1600000000'', penalty = ''0'',
     servedDays = ''10'', daysLate = ''0'', daysEarly = ''0'', StakeEnd.transactionHash = ''0xh2'' \<rparr>"

definition example_stake :: "StakeEnd option \<Rightarrow> StakeStart" where
  "example_stake e = \<lparr> id' = ''s1'', stakerAddr = ''0xAbC'', stakeId = ''7'', stakedHearts = ''0'',
     stakedShares = ''1'', stakeTShares = ''1'', stakedDays = ''10'', startDay = ''300'', endDay = ''310'',
     timestamp = ''1601000000'', isAutoStake = False, transactionHash = ''0xh1'', stakeEnd = e \<rparr>"

definition example_start_range :: DateRange where
  "example_start_range = \<lparr> range_from = ''2019-12-03'', range_to = ''2024-01-01'' \<rparr>"
definition example_end_range :: DateRange where
  "example_end_range = \<lparr> range_from = ''2019-12-03'', range_to = ''2050-01-01'' \<rparr>"
text \<open>
  The same ended stake with \<open>-0\<close> hearts, and a stake of \<open>9007199254740992\<close> hearts (two
  to the power 53, about ninety million HEX) ended with a payout of \<open>1\<close>.
\<close>

definition negative_zero_stake :: StakeStart where
  "negative_zero_stake = (example_stake (Some example_end)) \<lparr> StakeStart.stakedHearts := ''-0'' \<rparr>"

definition large_end :: StakeEnd where
  "large_end = example_end \<lparr> payout := ''1'', StakeEnd.stakedHearts := ''9007199254740992'' \<rparr>"

definition large_stake :: StakeStart where
  "large_stake = (example_stake (Some large_end)) \<lparr> StakeStart.stakedHearts := ''9007199254740992'' \<rparr>"


section \<open>Flush transaction aggregation component\<close>

text \<open>
  The callback of the \<open>fetch\<close> in \<open>FlushTransactions\<close> parses the text of a CSV file
  and builds the summary table and the day series. An exception thrown in the callback
  is caught by the \<open>.catch\<close> of the promise chain, which logs it; then neither
  \<open>setSummary\<close> nor \<open>setDailyTotals\<close> is reached. The model returns the exception
  as a value.
\<close>

datatype js_error = TypeError | RangeError

datatype TransactionType = Send | Receive | Internal

record Transaction =
  to :: string
  hash :: "string option"
  amount :: jsnum
  count :: nat
  firstDate :: Date
  lastDate :: Date

record DailyTotal =
  date :: string
  amount :: jsnum
  cumulative :: jsnum

text \<open>
  The two objects of the pass, \<open>transactionSummary\<close> and \<open>dailyAmounts\<close>, are plain
  objects used as dictionaries. They are modelled by their own properties, as association
  lists with distinct keys in the order of insertion; \<open>AList.update\<close> overwrites in place
  and appends a new key at the end, as property assignment does. (JavaScript enumerates
  keys that are canonical array indices first; the order is of no consequence below.)
\<close>

type_synonym TransactionSummary = "(string \<times> Transaction) list"

type_synonym DailyAmounts = "(string \<times> jsnum) list"

definition TARGET_ADDRESS :: string where
  "TARGET_ADDRESS = toLowerCase ''0xDEC9f2793e3c17cd26eeFb21C4762fA5128E0399''"

text \<open>\<open>line.replace(/^\d+\|/, '')\<close>: a leading run of digits followed by a pipe is removed.\<close>

definition strip_prefix :: "string \<Rightarrow> string" where
  "strip_prefix line =
     (let ds = takeWhile is_digit line; r = dropWhile is_digit line
      in if ds \<noteq> [] \<and> startsWith r ''|'' then drop 1 r else line)"

text \<open>\<open>s.replace(/"/g, '')\<close>: every double quote is removed.\<close>

definition unquote :: "string \<Rightarrow> string" where
  "unquote s = filter (\<lambda>c. c \<noteq> CHR 0x22) s"

text \<open>
  A plain object inherits from \<open>Object.prototype\<close>. Reading a key that is not an own
  property but one of the inherited names gives the inherited function (or, for
  \<open>__proto__\<close>, the prototype itself), which is truthy; and the assignment
  \<open>obj['__proto__'] = v\<close> goes to the inherited setter, which creates no own property.
\<close>

definition inherited_key :: "string \<Rightarrow> bool" where
  "inherited_key k =
     (k \<in> set [''constructor'', ''__proto__'', ''__defineGetter__'', ''__defineSetter__'',
                ''__lookupGetter__'', ''__lookupSetter__'', ''hasOwnProperty'', ''isPrototypeOf'',
                ''propertyIsEnumerable'', ''toLocaleString'', ''toString'', ''valueOf''])"

definition obj_set :: "string \<Rightarrow> 'a \<Rightarrow> (string \<times> 'a) list \<Rightarrow> (string \<times> 'a) list" where
  "obj_set k v obj = (if k = ''__proto__'' then obj else AList.update k v obj)"

text \<open>
  \<open>dailyAmounts[dateKey] = (dailyAmounts[dateKey] || 0) + amount\<close>. The keys of
  \<open>dailyAmounts\<close> are date parts of ISO strings, none of which is an inherited name.
\<close>

definition daily_add :: "string \<Rightarrow> jsnum \<Rightarrow> DailyAmounts \<Rightarrow> DailyAmounts" where
  "daily_add dateKey amt dailyAmounts =
     AList.update dateKey
       (js_add (case map_of dailyAmounts dateKey of None \<Rightarrow> Fin 0 | Some v \<Rightarrow> js_or v (Fin 0)) amt)
       dailyAmounts"

text \<open>
  \<^verbatim>\<open>
  function processTransaction(from, to, amount, timestamp, transactionSummary, dailyAmounts) {
    const addressKey = from === TARGET_ADDRESS ? to : from;
    if (!transactionSummary[addressKey]) {
      transactionSummary[addressKey] =
        { to: addressKey, amount: 0, count: 0, firstDate: timestamp, lastDate: timestamp };
    }
    transactionSummary[addressKey].amount += amount;
    transactionSummary[addressKey].count += 1;
    transactionSummary[addressKey].firstDate = new Date(Math.min(
      transactionSummary[addressKey].firstDate.getTime(), timestamp.getTime()));
    transactionSummary[addressKey].lastDate = new Date(Math.max(
      transactionSummary[addressKey].lastDate.getTime(), timestamp.getTime()));
    const dateKey = timestamp.toISOString().split('T')[0];
    dailyAmounts[dateKey] = (dailyAmounts[dateKey] || 0) + amount;
  }
  \<close>
  When \<open>addressKey\<close> is no own property but an inherited name, the guard finds a truthy
  value, the two \<open>+=\<close> write to that inherited object, and \<open>.firstDate.getTime()\<close> is a
  call on \<open>undefined\<close>: a TypeError. On an invalid \<open>timestamp\<close>, \<open>toISOString\<close> throws
  a RangeError. (The parameters \<open>from\<close>, \<open>to\<close>, \<open>amount\<close> and \<open>timestamp\<close> are written
  \<open>from_addr\<close>, \<open>to_addr\<close>, \<open>amt\<close> and \<open>tstamp\<close>, and the local \<open>hash\<close> further down
  \<open>txhash\<close>: the plain names are record fields here.)
\<close>

definition processTransaction ::
  "string \<Rightarrow> string \<Rightarrow> jsnum \<Rightarrow> Date \<Rightarrow> TransactionSummary \<Rightarrow> DailyAmounts
     \<Rightarrow> js_error + (TransactionSummary \<times> DailyAmounts)" where
  "processTransaction from_addr to_addr amt tstamp transactionSummary dailyAmounts =
     (let addressKey = (if from_addr = TARGET_ADDRESS then to_addr else from_addr) in
      if map_of transactionSummary addressKey = None \<and> inherited_key addressKey then Inl TypeError
      else
        (let entry = (case map_of transactionSummary addressKey of
                        None \<Rightarrow> \<lparr> to = addressKey, hash = None, amount = Fin 0, count = 0,
                                   firstDate = tstamp, lastDate = tstamp \<rparr>
                      | Some e \<Rightarrow> e);
             entry' = entry \<lparr> Transaction.amount := js_add (Transaction.amount entry) amt,
                               count := count entry + 1,
                               firstDate := date_min (firstDate entry) tstamp,
                               lastDate := date_max (lastDate entry) tstamp \<rparr>
         in (case toISOString_date tstamp of
               None \<Rightarrow> Inl RangeError
             | Some dateKey \<Rightarrow>
                 Inr (AList.update addressKey entry' transactionSummary,
                      daily_add dateKey amt dailyAmounts))))"

text \<open>
  The body of \<open>lines.forEach((line) => ...)\<close>, from the state before the line to the
  state after it:
  \<^verbatim>\<open>
  if (!line.trim()) return;
  if (transactionType === 'internal') {
    const cleanLine = line.replace(/^\d+\|/, '');
    const columns = cleanLine.split(',');
    if (columns.length < 11) return;
    const hash = columns[0].replace(/"/g, '');
    const amount = parseFloat(columns[10].replace(/"/g, '')) || 0;
    const timestamp = new Date(columns[3].replace(/"/g, ''));
    const transactionKey = hash;
    transactionSummary[transactionKey] =
      { to: '', hash, amount, count: 1, firstDate: timestamp, lastDate: timestamp };
    const dateKey = timestamp.toISOString().split('T')[0];
    dailyAmounts[dateKey] = (dailyAmounts[dateKey] || 0) + amount;
  } else {
    const cleanLine = line.replace(/^\d+\|/, '');
    const columns = cleanLine.split(',');
    if (columns.length < 15) return;
    const from = columns[4].replace(/"/g, '').toLowerCase();
    const to = columns[5].replace(/"/g, '').toLowerCase();
    const amount = parseFloat(columns[7].replace(/"/g, ''))
                || parseFloat(columns[8].replace(/"/g, '')) || 0;
    const timestamp = new Date(columns[3].replace(/"/g, ''));
    if (transactionType === 'send' && from === TARGET_ADDRESS && amount > 0) {
      processTransaction(from, to, amount, timestamp, transactionSummary, dailyAmounts);
    } else if (transactionType === 'receive' && to === TARGET_ADDRESS && amount > 0) {
      processTransaction(from, to, amount, timestamp, transactionSummary, dailyAmounts);
    }
  }
  \<close>
\<close>

definition process_line ::
  "(string \<Rightarrow> int option) \<Rightarrow> TransactionType \<Rightarrow> string
     \<Rightarrow> TransactionSummary \<times> DailyAmounts \<Rightarrow> js_error + (TransactionSummary \<times> DailyAmounts)" where
  "process_line dp transactionType line st =
     (case st of (transactionSummary, dailyAmounts) \<Rightarrow>
      if trim line = [] then Inr st
      else if transactionType = Internal then
        (let cleanLine = strip_prefix line;
             columns = split (CHR '','') cleanLine
         in if length columns < 11 then Inr st
            else
              (let txhash = unquote (columns ! 0);
                   amt = js_or (parseFloat (unquote (columns ! 10))) (Fin 0);
                   tstamp = new_Date dp (unquote (columns ! 3));
                   transactionKey = txhash;
                   summary' = obj_set transactionKey
                                \<lparr> to = [], hash = Some txhash, amount = amt, count = 1,
                                  firstDate = tstamp, lastDate = tstamp \<rparr>
                                transactionSummary
               in (case toISOString_date tstamp of
                     None \<Rightarrow> Inl RangeError
                   | Some dateKey \<Rightarrow> Inr (summary', daily_add dateKey amt dailyAmounts))))
      else
        (let cleanLine = strip_prefix line;
             columns = split (CHR '','') cleanLine
         in if length columns < 15 then Inr st
            else
              (let from_addr = toLowerCase (unquote (columns ! 4));
                   to_addr = toLowerCase (unquote (columns ! 5));
                   amt = js_or (js_or (parseFloat (unquote (columns ! 7)))
                                      (parseFloat (unquote (columns ! 8)))) (Fin 0);
                   tstamp = new_Date dp (unquote (columns ! 3))
               in if transactionType = Send \<and> from_addr = TARGET_ADDRESS \<and> js_gt amt (Fin 0)
                  then processTransaction from_addr to_addr amt tstamp transactionSummary dailyAmounts
                  else if transactionType = Receive \<and> to_addr = TARGET_ADDRESS \<and> js_gt amt (Fin 0)
                  then processTransaction from_addr to_addr amt tstamp transactionSummary dailyAmounts
                  else Inr st)))"

text \<open>\<open>lines.forEach\<close>: the lines in order; an exception ends the pass.\<close>

fun process_lines ::
  "(string \<Rightarrow> int option) \<Rightarrow> TransactionType \<Rightarrow> string list
     \<Rightarrow> TransactionSummary \<times> DailyAmounts \<Rightarrow> js_error + (TransactionSummary \<times> DailyAmounts)" where
  "process_lines dp transactionType [] st = Inr st"
| "process_lines dp transactionType (line # lines) st =
     (case process_line dp transactionType line st of
        Inl e \<Rightarrow> Inl e
      | Inr st' \<Rightarrow> process_lines dp transactionType lines st')"

text \<open>
  \<^verbatim>\<open>
  const sortedDates = Object.keys(dailyAmounts).sort();
  let cumulative = 0;
  const dailyTotals = sortedDates.map(date => {
    cumulative += dailyAmounts[date];
    return { date, amount: dailyAmounts[date], cumulative };
  });
  \<close>
  \<open>sort()\<close> without a comparator orders strings by their code units, which is the
  lexicographic order of \<^typ>\<open>string\<close>. Every date of \<open>sortedDates\<close> is a key of
  \<open>dailyAmounts\<close>; a missing key would read \<open>undefined\<close>, NaN in the sum.
\<close>

definition daily_get :: "DailyAmounts \<Rightarrow> string \<Rightarrow> jsnum" where
  "daily_get dailyAmounts k = (case map_of dailyAmounts k of Some v \<Rightarrow> v | None \<Rightarrow> NaN)"

fun running_totals :: "DailyAmounts \<Rightarrow> jsnum \<Rightarrow> string list \<Rightarrow> DailyTotal list" where
  "running_totals dailyAmounts cum [] = []"
| "running_totals dailyAmounts cum (d # ds) =
     (let cum' = js_add cum (daily_get dailyAmounts d)
      in \<lparr> date = d, amount = daily_get dailyAmounts d, cumulative = cum' \<rparr>
         # running_totals dailyAmounts cum' ds)"

definition dailyTotals_of :: "DailyAmounts \<Rightarrow> DailyTotal list" where
  "dailyTotals_of dailyAmounts =
     (let sortedDates = sort (map fst dailyAmounts)
      in running_totals dailyAmounts (Fin 0) sortedDates)"

text \<open>
  The pass: \<open>csv.split('\n').slice(1)\<close> drops the header line; the summary and the day
  series are what \<open>setSummary\<close> and \<open>setDailyTotals\<close> receive.
\<close>

definition flush ::
  "(string \<Rightarrow> int option) \<Rightarrow> TransactionType \<Rightarrow> string
     \<Rightarrow> js_error + (TransactionSummary \<times> DailyTotal list)" where
  "flush dp transactionType csv =
     (let lines = drop 1 (split (CHR 0x0A) csv)
      in (case process_lines dp transactionType lines ([], []) of
            Inl e \<Rightarrow> Inl e
          | Inr (transactionSummary, dailyAmounts) \<Rightarrow>
              Inr (transactionSummary, dailyTotals_of dailyAmounts)))"

subsection \<open>Notions for the properties of a pass\<close>

text \<open>
  The properties of the pass are stated with the notions of this subsection. First the
  values the callback reads from a line, with the expressions of its local constants
  \<open>columns\<close>, \<open>from\<close>, \<open>to\<close>, \<open>timestamp\<close>, \<open>hash\<close> and \<open>amount\<close> (one for each
  schema), and the key \<open>addressKey\<close> under which \<open>processTransaction\<close> files a row
  (the other party).
\<close>

definition columns_of :: "string \<Rightarrow> string list" where
  "columns_of line = split (CHR '','') (strip_prefix line)"

definition row_from :: "string \<Rightarrow> string" where
  "row_from line = toLowerCase (unquote (columns_of line ! 4))"

definition row_to :: "string \<Rightarrow> string" where
  "row_to line = toLowerCase (unquote (columns_of line ! 5))"

definition row_time :: "(string \<Rightarrow> int option) \<Rightarrow> string \<Rightarrow> Date" where
  "row_time dp line = new_Date dp (unquote (columns_of line ! 3))"

definition row_hash :: "string \<Rightarrow> string" where
  "row_hash line = unquote (columns_of line ! 0)"

definition row_key :: "string \<Rightarrow> string" where
  "row_key line = (if row_from line = TARGET_ADDRESS then row_to line else row_from line)"

definition internal_amount :: "string \<Rightarrow> jsnum" where
  "internal_amount line = js_or (parseFloat (unquote (columns_of line ! 10))) (Fin 0)"

definition sr_amount :: "string \<Rightarrow> jsnum" where
  "sr_amount line =
     js_or (js_or (parseFloat (unquote (columns_of line ! 7)))
                  (parseFloat (unquote (columns_of line ! 8)))) (Fin 0)"

text \<open>
  Then two readings of the amount of a send/receive row that follow words, not the code.
  \<open>first_nonzero_candidate\<close>: the first of the two candidates (columns 7 and 8) that is
  a number other than NaN and \<open>0\<close>, and \<open>0\<close> when neither is.
  \<open>first_positive_candidate\<close>, the wording of the specification: the first of the two
  candidates that is a positive number (none when neither is).
\<close>

definition first_nonzero_candidate :: "string \<Rightarrow> jsnum" where
  "first_nonzero_candidate line =
     (let a = parseFloat (unquote (columns_of line ! 7));
          b = parseFloat (unquote (columns_of line ! 8))
      in if a \<noteq> NaN \<and> a \<noteq> Fin 0 then a
         else if b \<noteq> NaN \<and> b \<noteq> Fin 0 then b else Fin 0)"

definition first_positive_candidate :: "string \<Rightarrow> jsnum option" where
  "first_positive_candidate line =
     (let a = parseFloat (unquote (columns_of line ! 7));
          b = parseFloat (unquote (columns_of line ! 8))
      in if js_gt a (Fin 0) then Some a
         else if js_gt b (Fin 0) then Some b else None)"

text \<open>
  A send/receive row is included when it has its fifteen columns, the party that the
  mode looks at is the target address, and the amount is greater than \<open>0\<close>.
\<close>

definition sr_included :: "TransactionType \<Rightarrow> string \<Rightarrow> bool" where
  "sr_included t line =
     (15 \<le> length (columns_of line)
      \<and> ((t = Send \<and> row_from line = TARGET_ADDRESS) \<or> (t = Receive \<and> row_to line = TARGET_ADDRESS))
      \<and> js_gt (sr_amount line) (Fin 0))"

text \<open>
  The specification's account of grouping: a group after one more transaction of amount
  \<open>a\<close> at time \<open>ts\<close> (a new group starts from amount \<open>0\<close> and count \<open>0\<close> at that
  time; then the amount and the count are added to, and the first and last date are the
  minimum and maximum with \<open>ts\<close>).
\<close>

definition accumulate :: "string \<Rightarrow> jsnum \<Rightarrow> Date \<Rightarrow> Transaction option \<Rightarrow> Transaction" where
  "accumulate k a ts old =
     (let e = (case old of
                 None \<Rightarrow> \<lparr> to = k, hash = None, amount = Fin 0, count = 0,
                            firstDate = ts, lastDate = ts \<rparr>
               | Some e \<Rightarrow> e)
      in e \<lparr> Transaction.amount := js_add (Transaction.amount e) a,
             count := count e + 1,
             firstDate := date_min (firstDate e) ts,
             lastDate := date_max (lastDate e) ts \<rparr>)"

text \<open>
  The invariant of the specification for a summary entry: the rows seen so far for a key
  in a send/receive pass (the included rows filed under the key), and what it is for an
  entry to be the group of such rows: the amount is their sum, the count their number,
  the time stamps of the rows all lie between the first and the last date, and each of
  these two dates is the time stamp of one of the rows.
\<close>

definition seen_rows :: "TransactionType \<Rightarrow> string list \<Rightarrow> string \<Rightarrow> string list" where
  "seen_rows t ls k = filter (\<lambda>line. sr_included t line \<and> row_key line = k) ls"

definition group_of :: "(string \<Rightarrow> int option) \<Rightarrow> string list \<Rightarrow> Transaction \<Rightarrow> bool" where
  "group_of dp rows e =
     (rows \<noteq> []
      \<and> Transaction.amount e = foldl js_add (Fin 0) (map sr_amount rows)
      \<and> count e = length rows
      \<and> (case (firstDate e, lastDate e) of
            (Some f, Some l) \<Rightarrow>
              list_all (\<lambda>r. case row_time dp r of Some x \<Rightarrow> f \<le> x \<and> x \<le> l | None \<Rightarrow> False) rows
              \<and> list_ex (\<lambda>r. row_time dp r = Some f) rows
              \<and> list_ex (\<lambda>r. row_time dp r = Some l) rows
          | _ \<Rightarrow> False))"

text \<open>The entry the internal branch writes for a row.\<close>

definition internal_entry :: "(string \<Rightarrow> int option) \<Rightarrow> string \<Rightarrow> Transaction" where
  "internal_entry dp line =
     \<lparr> to = [], hash = Some (row_hash line), amount = internal_amount line, count = 1,
       firstDate = row_time dp line, lastDate = row_time dp line \<rparr>"

text \<open>
  The data lines of a CSV text (all lines but the header) and, among them, the valid
  rows of the eleven-column file.
\<close>

definition data_lines :: "string \<Rightarrow> string list" where
  "data_lines csv = drop 1 (split (CHR 0x0A) csv)"

definition internal_rows :: "string \<Rightarrow> string list" where
  "internal_rows csv = filter (\<lambda>line. 11 \<le> length (columns_of line)) (data_lines csv)"

subsection \<open>Example inputs\<close>

text \<open>
  CSV texts for running the pass: lines ended by a line feed, and a data line of the
  fifteen-column file with its leading \<open>1|\<close>, given the date (column 3), the sender and
  the receiver (columns 4 and 5) and the two amount candidates (columns 7 and 8), each in
  double quotes.
\<close>

definition csv_lines :: "string list \<Rightarrow> string" where
  "csv_lines ls = concat (map (\<lambda>l. l @ [CHR 0x0A]) ls)"

definition quoted :: "string \<Rightarrow> string" where
  "quoted s = [CHR 0x22] @ s @ [CHR 0x22]"

definition send_row :: "string \<Rightarrow> string \<Rightarrow> string \<Rightarrow> string \<Rightarrow> string \<Rightarrow> string" where
  "send_row d f t a b =
     ''1|0xh1,100,1577836800,'' @ quoted d @ '','' @ quoted f @ '','' @ quoted t @ '',,''
       @ quoted a @ '','' @ quoted b @ '',,0.1,1,130,,''"

definition target_mixed_case :: string where
  "target_mixed_case = ''0xDEC9f2793e3c17cd26eeFb21C4762fA5128E0399''"

text \<open>
  Four data lines, three sent by the target (two to \<open>0xAAA\<close>, on 2020-01-01 and on
  2019-12-31, one to \<open>0xBBB\<close> on 2020-01-03) and one received by it, as the first two
  lines and the last two; and the text with a header line in front of them.
\<close>

definition example_first_rows :: "string list" where
  "example_first_rows =
     [send_row ''2020-01-01'' target_mixed_case ''0xAAA'' ''10'' ''200.3'',
      send_row ''2020-01-03'' target_mixed_case ''0xBBB'' ''15'' '''']"

definition example_later_rows :: "string list" where
  "example_later_rows =
     [send_row ''2019-12-31'' target_mixed_case ''0xAAA'' ''x'' ''2.5'',
      send_row ''2020-01-01'' ''0xAAA'' target_mixed_case ''7'' ''2.5'']"

definition example_csv :: string where
  "example_csv = csv_lines
     ([''Txhash,Blockno,UnixTimestamp,DateTime,From,To,ContractAddress,Value_IN,Value_OUT,x,x,x,x,x,x'']
      @ example_first_rows @ example_later_rows)"

text \<open>The state of the pass in mode \<open>send\<close> after the first two lines.\<close>

definition example_first_summary :: TransactionSummary where
  "example_first_summary =
     [(''0xaaa'', \<lparr> to = ''0xaaa'', hash = None, amount = Fin 10, count = 1,
                    firstDate = Some 1577836800000, lastDate = Some 1577836800000 \<rparr>),
      (''0xbbb'', \<lparr> to = ''0xbbb'', hash = None, amount = Fin 15, count = 1,
                    firstDate = Some 1578009600000, lastDate = Some 1578009600000 \<rparr>)]"

definition example_first_daily :: DailyAmounts where
  "example_first_daily = [(''2020-01-01'', Fin 10), (''2020-01-03'', Fin 15)]"

definition example_send_daily :: DailyAmounts where
  "example_send_daily = [(''2020-01-01'', Fin 10), (''2020-01-03'', Fin 15), (''2019-12-31'', Fin (5 / 2))]"

text \<open>
  The row of the scenario (candidates \<open>100.5\<close> and \<open>200.3\<close>, sent by the target), and a
  row whose first candidate is negative and whose second is positive.
\<close>

definition scenario_row :: string where
  "scenario_row = send_row ''2020-01-01'' target_mixed_case ''0xAAA'' ''100.5'' ''200.3''"

definition negative_first_row :: string where
  "negative_first_row = send_row ''2020-01-01'' target_mixed_case ''0xAAA'' ''-5'' ''10''"

definition example_send_summary :: TransactionSummary where
  "example_send_summary =
     [(''0xaaa'', \<lparr> to = ''0xaaa'', hash = None, amount = Fin (25 / 2), count = 2,
                    firstDate = Some 1577750400000, lastDate = Some 1577836800000 \<rparr>),
      (''0xbbb'', \<lparr> to = ''0xbbb'', hash = None, amount = Fin 15, count = 1,
                    firstDate = Some 1578009600000, lastDate = Some 1578009600000 \<rparr>)]"

definition example_send_totals :: "DailyTotal list" where
  "example_send_totals =
     [\<lparr> date = ''2019-12-31'', amount = Fin (5 / 2), cumulative = Fin (5 / 2) \<rparr>,
      \<lparr> date = ''2020-01-01'', amount = Fin 10, cumulative = Fin (25 / 2) \<rparr>,
      \<lparr> date = ''2020-01-03'', amount = Fin 15, cumulative = Fin (55 / 2) \<rparr>]"

text \<open>
  A data line of the eleven-column file, given the hash (column 0), the date (column 3)
  and the amount (column 10), and a text of four such lines: two with the same hash, one
  with a negative amount, one with an empty amount.
\<close>

definition internal_row :: "string \<Rightarrow> string \<Rightarrow> string \<Rightarrow> string" where
  "internal_row h d a = h @ '',100,1577836800,'' @ d @ '',0xfrom,0xto,0,0,0,0,'' @ a"

definition example_internal_csv :: string where
  "example_internal_csv = csv_lines
     [''Txhash,Blockno,UnixTimestamp,DateTime,From,To,x,x,x,x,Value'',
      internal_row ''0xh1'' ''2020-01-02'' ''5'',
      internal_row ''0xh1'' ''2020-01-01'' ''3'',
      internal_row ''0xh2'' ''2020-01-03'' ''-9'',
      internal_row ''0xh3'' ''2020-01-03'' '''']"

text \<open>
  A row of the eleven-column file with an empty amount, and a row of the fifteen-column
  file, sent by the target, whose candidates are \<open>0\<close> and empty.
\<close>

definition zero_amount_row :: string where
  "zero_amount_row = internal_row ''0xh3'' ''2020-01-03'' ''''"

definition zero_send_row :: string where
  "zero_send_row = send_row ''2020-01-01'' target_mixed_case ''0xAAA'' ''0'' ''''"

text \<open>
  A row of the eleven-column file with an empty amount whose date column is no date, and
  one with an empty amount whose hash is \<open>__proto__\<close>.
\<close>

definition invalid_date_row :: string where
  "invalid_date_row = internal_row ''0xh3'' ''garbage'' ''''"

definition proto_hash_row :: string where
  "proto_hash_row = internal_row ''__proto__'' ''2020-01-03'' ''''"

definition invalid_date_csv :: string where
  "invalid_date_csv = csv_lines
     [''Txhash,Blockno,UnixTimestamp,DateTime,From,To,x,x,x,x,Value'',
      zero_amount_row,
      invalid_date_row]"

text \<open>A text of the eleven-column file with two rows of different hashes.\<close>

definition example_distinct_csv :: string where
  "example_distinct_csv = csv_lines
     [''Txhash,Blockno,UnixTimestamp,DateTime,From,To,x,x,x,x,Value'',
      internal_row ''0xh1'' ''2020-01-02'' ''5'',
      internal_row ''0xh2'' ''2020-01-03'' ''-9'']"

definition example_distinct_summary :: TransactionSummary where
  "example_distinct_summary =
     [(''0xh1'', \<lparr> to = [], hash = Some ''0xh1'', amount = Fin 5, count = 1,
                   firstDate = Some 1577923200000, lastDate = Some 1577923200000 \<rparr>),
      (''0xh2'', \<lparr> to = [], hash = Some ''0xh2'', amount = Fin (- 9), count = 1,
                   firstDate = Some 1578009600000, lastDate = Some 1578009600000 \<rparr>)]"

definition example_distinct_totals :: "DailyTotal list" where
  "example_distinct_totals =
     [\<lparr> date = ''2020-01-02'', amount = Fin 5, cumulative = Fin 5 \<rparr>,
      \<lparr> date = ''2020-01-03'', amount = Fin (- 9), cumulative = Fin (- 4) \<rparr>]"

definition example_internal_summary :: TransactionSummary where
  "example_internal_summary =
     [(''0xh1'', \<lparr> to = [], hash = Some ''0xh1'', amount = Fin 3, count = 1,
                   firstDate = Some 1577836800000, lastDate = Some 1577836800000 \<rparr>),
      (''0xh2'', \<lparr> to = [], hash = Some ''0xh2'', amount = Fin (- 9), count = 1,
                   firstDate = Some 1578009600000, lastDate = Some 1578009600000 \<rparr>),
      (''0xh3'', \<lparr> to = [], hash = Some ''0xh3'', amount = Fin 0, count = 1,
                   firstDate = Some 1578009600000, lastDate = Some 1578009600000 \<rparr>)]"

definition example_internal_totals :: "DailyTotal list" where
  "example_internal_totals =
     [\<lparr> date = ''2020-01-01'', amount = Fin 3, cumulative = Fin 3 \<rparr>,
      \<lparr> date = ''2020-01-02'', amount = Fin 5, cumulative = Fin 8 \<rparr>,
      \<lparr> date = ''2020-01-03'', amount = Fin (- 9), cumulative = Fin (- 1) \<rparr>]"

section \<open>Properties of the string operations\<close>

lemma lower_char_idem: "lower_char (lower_char c) = lower_char c"
  unfolding lower_char_def Let_def by (auto simp: of_char_of)

lemma is_ws_lower_char: "is_ws (lower_char c) = is_ws c"
  unfolding lower_char_def Let_def is_ws_def by (auto simp: of_char_of)

lemma toLowerCase_idem: "toLowerCase (toLowerCase s) = toLowerCase s"
  by (simp add: toLowerCase_def lower_char_idem)

lemma dropWhile_ws_lower:
  "dropWhile is_ws (map lower_char s) = map lower_char (dropWhile is_ws s)"
  by (induction s) (simp_all add: is_ws_lower_char)

lemma trim_toLowerCase: "trim (toLowerCase s) = toLowerCase (trim s)"
  by (simp add: trim_def toLowerCase_def dropWhile_ws_lower rev_map)

lemma dropWhile_idem: "dropWhile P (dropWhile P xs) = dropWhile P xs"
  by (induction xs) simp_all

lemma dropWhile_rev_dropWhile:
  "dropWhile P (rev (dropWhile P (rev (dropWhile P xs)))) = rev (dropWhile P (rev (dropWhile P xs)))"
proof (cases "dropWhile P xs")
  case Nil
  show ?thesis unfolding Nil by simp
next
  case (Cons z zs)
  then have nz: "\<not> P z" using hd_dropWhile [of P xs] by auto
  have "dropWhile P (rev (z # zs)) = dropWhile P (rev zs) @ [z]"
    using nz by (simp add: dropWhile_append3)
  then have "rev (dropWhile P (rev (z # zs))) = z # rev (dropWhile P (rev zs))"
    by simp
  then show ?thesis using nz Cons by simp
qed

lemma trim_idem: "trim (trim s) = trim s"
  by (simp add: trim_def dropWhile_rev_dropWhile dropWhile_idem)

lemma normalize_idem: "normalize_addr (normalize_addr s) = normalize_addr s"
  by (simp add: normalize_addr_def trim_toLowerCase toLowerCase_idem trim_idem)

section \<open>The address list of the lobby query\<close>

text \<open>
  Claim C9. Normalization (trim, then lower case) is idempotent; the address list is the
  list of normalized pieces of the comma-separated input that have length 42 and start
  with \<open>0x\<close>, in the order of the input, the guard for the empty input changing nothing;
  and that list is what the query is sent, when it is not empty.
\<close>

theorem addresses_normalized_valid:
  "normalize_addr (normalize_addr s) = normalize_addr s
   \<and> addresses inp =
       filter (\<lambda>a. length a = 42 \<and> startsWith a ''0x'') (map normalize_addr (split (CHR '','') inp))
   \<and> (a \<in> set (addresses inp) \<longleftrightarrow>
        a \<in> set (map normalize_addr (split (CHR '','') inp)) \<and> length a = 42 \<and> startsWith a ''0x'')
   \<and> query_memberAddresses inp =
        (if addresses inp = [] then None else Some (addresses inp))"
proof -
  have empty: "filter (\<lambda>a. length a = 42 \<and> startsWith a ''0x'') (map normalize_addr (split (CHR '','') [])) = []"
    by (simp add: normalize_addr_def trim_def toLowerCase_def)
  have eq: "addresses inp =
       filter (\<lambda>a. length a = 42 \<and> startsWith a ''0x'') (map normalize_addr (split (CHR '','') inp))"
    using empty by (simp add: addresses_def)
  have mem: "a \<in> set (addresses inp) \<longleftrightarrow>
        a \<in> set (map normalize_addr (split (CHR '','') inp)) \<and> length a = 42 \<and> startsWith a ''0x''"
    unfolding eq by auto
  have q: "query_memberAddresses inp = (if addresses inp = [] then None else Some (addresses inp))"
    by (simp add: query_memberAddresses_def)
  show ?thesis using normalize_idem eq mem q by blast
qed

text \<open>
  An input of three pieces: the target address in mixed case with blanks around it, a
  piece that is too short, and an empty piece.
\<close>

lemma addresses_example:
  "addresses ('' 0xDEC9f2793e3c17cd26eeFb21C4762fA5128E0399 ,0xabc,'')
     = [''0xdec9f2793e3c17cd26eefb21c4762fa5128e0399'']
   \<and> query_memberAddresses ''0xabc, '' = None"
  by code_simp

section \<open>The sort handlers\<close>

text \<open>
  Claim C7. For the stakes table (\<open>handleSort\<close>) and the flush table (\<open>toggleSort\<close>), from
  any state: the handler on the active field flips the direction, twice restores it, and
  on another field makes that field active with direction descending.
\<close>

theorem sort_handlers_toggle:
  "handleSort f (f, d) = (f, flip_direction d)
   \<and> flip_direction Asc = Desc \<and> flip_direction Desc = Asc
   \<and> handleSort f (handleSort f (f, d)) = (f, d)
   \<and> (g \<noteq> f \<longrightarrow> handleSort g (f, d) = (g, Desc))
   \<and> toggleSort f' (f', d) = (f', flip_direction d)
   \<and> toggleSort f' (toggleSort f' (f', d)) = (f', d)
   \<and> (g' \<noteq> f' \<longrightarrow> toggleSort g' (f', d) = (g', Desc))"
  by (cases d) (auto simp: handleSort_def toggleSort_def flip_direction_def)

theorem sort_handlers_toggle_witness:
  "Roi \<noteq> Start \<and> handleSort Roi (Start, Asc) = (Roi, Desc)
   \<and> handleSort Start (handleSort Start (Start, Asc)) = (Start, Asc)
   \<and> ByDate \<noteq> ByAmount \<and> toggleSort ByDate (ByAmount, Asc) = (ByDate, Desc)
   \<and> toggleSort ByAmount (toggleSort ByAmount (ByAmount, Asc)) = (ByAmount, Asc)"
proof -
  have "Roi \<noteq> Start" and "ByDate \<noteq> ByAmount" by simp_all
  then show ?thesis
    using sort_handlers_toggle [of Start Asc Roi ByAmount ByDate] by blast
qed

section \<open>Arithmetic of doubles\<close>

text \<open>Powers of two and the exponent of the binade.\<close>

lemma pow2_powi: "pow2 e = 2 powi e"
  by (simp add: pow2_def power_int_def power_one_over inverse_eq_divide)

lemma pow2_pos: "0 < pow2 e"
  by (simp add: pow2_powi)

lemma pow2_add: "pow2 (a + b) = pow2 a * pow2 b"
  by (simp add: pow2_powi power_int_add)

lemma pow2_mono: "a \<le> b \<Longrightarrow> pow2 a \<le> pow2 b"
  by (simp add: pow2_powi power_int_increasing)

lemma pow2_less_imp: "pow2 a < pow2 b \<Longrightarrow> a < b"
  using pow2_mono [of b a] by (cases "a < b") auto

lemma pow2_nat: "pow2 (int n) = 2 ^ n"
  by (simp add: pow2_def)

lemma ilog2_bounds:
  assumes "0 < a"
  shows "pow2 (ilog2 a) \<le> a" and "a < pow2 (ilog2 a + 1)"
proof -
  obtain p q where pq: "quotient_of a = (p, q)" by (cases "quotient_of a")
  have q: "0 < q" using pq by (rule quotient_of_denom_pos)
  have a: "a = of_int p / of_int q" using pq by (rule quotient_of_div)
  have p: "0 < p" using assms q a by (simp add: zero_less_divide_iff)
  define k where "k = bitlen p - bitlen q"
  have bp: "1 \<le> bitlen p" and bq: "1 \<le> bitlen q"
    using p q by (auto simp: bitlen_alt_def)
  have p_lo: "pow2 (bitlen p - 1) \<le> of_int p"
  proof -
    have "(2::int) ^ nat (bitlen p - 1) \<le> p" using bitlen_bounds [OF p] by simp
    then have "(of_int ((2::int) ^ nat (bitlen p - 1)) :: rat) \<le> of_int p"
      by (simp only: of_int_le_iff)
    then show ?thesis using bp by (simp add: pow2_def)
  qed
  have p_hi: "of_int p < pow2 (bitlen p)"
  proof -
    have "p < (2::int) ^ nat (bitlen p)" using bitlen_bounds [OF p] by simp
    then have "(of_int p :: rat) < of_int ((2::int) ^ nat (bitlen p))"
      by (simp only: of_int_less_iff)
    then show ?thesis using bp by (simp add: pow2_def)
  qed
  have q_lo: "pow2 (bitlen q - 1) \<le> of_int q"
  proof -
    have "(2::int) ^ nat (bitlen q - 1) \<le> q" using bitlen_bounds [OF q] by simp
    then have "(of_int ((2::int) ^ nat (bitlen q - 1)) :: rat) \<le> of_int q"
      by (simp only: of_int_le_iff)
    then show ?thesis using bq by (simp add: pow2_def)
  qed
  have q_hi: "of_int q < pow2 (bitlen q)"
  proof -
    have "q < (2::int) ^ nat (bitlen q)" using bitlen_bounds [OF q] by simp
    then have "(of_int q :: rat) < of_int ((2::int) ^ nat (bitlen q))"
      by (simp only: of_int_less_iff)
    then show ?thesis using bq by (simp add: pow2_def)
  qed
  have qpos: "(0::rat) < of_int q" using q by simp
  have lo: "pow2 (k - 1) < a"
  proof -
    have "pow2 (k - 1) * of_int q < pow2 (k - 1) * pow2 (bitlen q)"
      using q_hi pow2_pos [of "k - 1"] by simp
    also have "\<dots> = pow2 (bitlen p - 1)"
      by (simp add: pow2_add [symmetric] k_def)
    also have "\<dots> \<le> of_int p" by (rule p_lo)
    finally show ?thesis using qpos by (simp add: a pos_less_divide_eq)
  qed
  have hi: "a < pow2 (k + 1)"
  proof -
    have "of_int p < pow2 (bitlen p)" by (rule p_hi)
    also have "\<dots> = pow2 (k + 1) * pow2 (bitlen q - 1)"
      by (simp add: pow2_add [symmetric] k_def)
    also have "\<dots> \<le> pow2 (k + 1) * of_int q"
      using q_lo pow2_pos [of "k + 1"] by simp
    finally show ?thesis using qpos by (simp add: a pos_divide_less_eq)
  qed
  have il: "ilog2 a = (if pow2 k \<le> a then k else k - 1)"
    by (simp add: ilog2_def pq k_def Let_def)
  show "pow2 (ilog2 a) \<le> a" using lo by (simp add: il)
  show "a < pow2 (ilog2 a + 1)" using hi by (auto simp: il)
qed

text \<open>Rounding to an integer, ties to the even one.\<close>

lemma round_half_even_floor: "\<lfloor>q\<rfloor> \<le> round_half_even q"
  by (simp add: round_half_even_def Let_def)

lemma round_half_even_ge_one: "1 \<le> q \<Longrightarrow> 1 \<le> round_half_even q"
  using round_half_even_floor [of q] by (simp add: le_floor_iff order_trans [of 1 "\<lfloor>q\<rfloor>"])

lemma round_half_even_small: "0 < q \<Longrightarrow> q \<le> 1 / 2 \<Longrightarrow> round_half_even q = 0"
proof -
  assume q: "0 < q" "q \<le> 1 / 2"
  then have f: "\<lfloor>q\<rfloor> = 0" by (simp add: floor_eq_iff)
  show ?thesis using q by (simp add: round_half_even_def Let_def f)
qed

lemma round_half_even_nonneg: "0 \<le> q \<Longrightarrow> 0 \<le> round_half_even q"
  using round_half_even_floor [of q] by (simp add: order_trans [of 0 "\<lfloor>q\<rfloor>"])

text \<open>The exponent of the spacing and the significand of a number other than zero.\<close>

lemma significand_ge_one:
  assumes "pow2 (- 1074) \<le> a"
  shows "1 \<le> a / pow2 (max (- 1074) (ilog2 a - 52))"
proof -
  have pos: "0 < a" using assms pow2_pos [of "- 1074"] by simp
  show ?thesis
  proof (cases "ilog2 a - 52 \<le> - 1074")
    case True
    then have "max (- 1074) (ilog2 a - 52) = - 1074" by simp
    then show ?thesis using assms pow2_pos [of "- 1074"] by (simp add: pos_le_divide_eq)
  next
    case False
    then have e: "max (- 1074) (ilog2 a - 52) = ilog2 a - 52" by simp
    have "pow2 (ilog2 a - 52) \<le> pow2 (ilog2 a)" by (rule pow2_mono) simp
    also have "\<dots> \<le> a" using pos by (rule ilog2_bounds)
    finally show ?thesis using pow2_pos [of "ilog2 a - 52"] by (simp add: e pos_le_divide_eq)
  qed
qed

lemma round_half_even_ge: "of_int n \<le> q \<Longrightarrow> n \<le> round_half_even q"
  using round_half_even_floor [of q] le_floor_iff [of n q] by linarith

lemma round_double_unfold:
  assumes "x \<noteq> 0" and "e = max (- 1074) (ilog2 \<bar>x\<bar> - 52)"
    and "m = round_half_even (\<bar>x\<bar> / pow2 e)" and "V = of_int m * pow2 e"
  shows "round_double x =
        (if pow2 1024 \<le> V then signed_inf (x < 0)
         else if V = 0 then signed_zero (x < 0)
         else DFin (if 0 < x then V else - V))"
proof -
  have "round_double x =
        (if pow2 1024 \<le> V then (if 0 < x then DPosInf else DNegInf)
         else if V = 0 then (if 0 < x then DFin 0 else DNegZero)
         else DFin (if 0 < x then V else - V))"
    unfolding round_double_def Let_def assms(2-4) using assms(1) by (simp only: if_False)
  then show ?thesis using assms(1) by (simp add: signed_inf_def signed_zero_def not_less)
qed

text \<open>
  A finite result other than zero is not below the least subnormal; a number that is
  not below it keeps its sign and is not rounded to zero; large numbers overflow to an
  infinity and small ones underflow to a zero of their sign.
\<close>

lemma round_double_range:
  assumes "round_double x = DFin v"
  shows "v = 0 \<or> pow2 (- 1074) \<le> \<bar>v\<bar>"
proof (cases "x = 0")
  case True
  then show ?thesis using assms by (simp add: round_double_def)
next
  case False
  define e where "e = max (- 1074) (ilog2 \<bar>x\<bar> - 52)"
  define m where "m = round_half_even (\<bar>x\<bar> / pow2 e)"
  define V where "V = rat_of_int m * pow2 e"
  note r = round_double_unfold [OF False e_def m_def V_def]
  have m0: "0 \<le> m" unfolding m_def using pow2_pos [of e] by (intro round_half_even_nonneg) simp
  have V0: "0 \<le> V" unfolding V_def using m0 pow2_pos [of e] by simp
  show ?thesis
  proof (cases "V = 0")
    case True
    then show ?thesis using assms r by (auto simp: signed_inf_def signed_zero_def split: if_splits)
  next
    case False
    then have "m \<noteq> 0" by (auto simp: V_def)
    then have "1 \<le> m" using m0 by simp
    then have "(1::rat) \<le> of_int m" by simp
    then have "pow2 e \<le> V" unfolding V_def using pow2_pos [of e] by simp
    moreover have "pow2 (- 1074) \<le> pow2 e" by (rule pow2_mono) (simp add: e_def)
    ultimately have "pow2 (- 1074) \<le> V" by simp
    moreover have "\<bar>v\<bar> = V"
      using assms r False V0 by (auto simp: signed_inf_def split: if_splits)
    ultimately show ?thesis by simp
  qed
qed

lemma round_double_keeps_sign:
  assumes "pow2 (- 1074) \<le> \<bar>x\<bar>"
  shows "round_double x = signed_inf (x < 0)
    \<or> (\<exists>v. round_double x = DFin v \<and> pow2 (- 1074) \<le> \<bar>v\<bar> \<and> (v < 0 \<longleftrightarrow> x < 0))"
proof -
  have x0: "x \<noteq> 0" using assms pow2_pos [of "- 1074"] by auto
  define e where "e = max (- 1074) (ilog2 \<bar>x\<bar> - 52)"
  define m where "m = round_half_even (\<bar>x\<bar> / pow2 e)"
  define V where "V = rat_of_int m * pow2 e"
  note r = round_double_unfold [OF x0 e_def m_def V_def]
  have "1 \<le> \<bar>x\<bar> / pow2 e" unfolding e_def using assms by (rule significand_ge_one)
  then have m1: "1 \<le> m" unfolding m_def by (rule round_half_even_ge_one)
  then have "(1::rat) \<le> of_int m" by simp
  then have ge: "pow2 e \<le> V" unfolding V_def using pow2_pos [of e] by simp
  have lo: "pow2 (- 1074) \<le> pow2 e" by (rule pow2_mono) (simp add: e_def)
  have pos: "0 < V" using ge pow2_pos [of e] by simp
  have low: "pow2 (- 1074) \<le> V" using ge lo by simp
  show ?thesis
  proof (cases "pow2 1024 \<le> V")
    case True
    then show ?thesis using r by simp
  next
    case False
    then have "round_double x = DFin (if 0 < x then V else - V)" using r pos by simp
    then show ?thesis using x0 pos low by auto
  qed
qed

lemma round_double_overflow:
  assumes "pow2 1024 \<le> \<bar>x\<bar>"
  shows "round_double x = signed_inf (x < 0)"
proof -
  have a0: "0 < \<bar>x\<bar>" using assms pow2_pos [of 1024] by simp
  then have x0: "x \<noteq> 0" by simp
  have "pow2 1024 < pow2 (ilog2 \<bar>x\<bar> + 1)" using assms ilog2_bounds(2) [OF a0] by simp
  then have il: "1024 \<le> ilog2 \<bar>x\<bar>" using pow2_less_imp [of 1024 "ilog2 \<bar>x\<bar> + 1"] by simp
  define e where "e = max (- 1074) (ilog2 \<bar>x\<bar> - 52)"
  define m where "m = round_half_even (\<bar>x\<bar> / pow2 e)"
  define V where "V = rat_of_int m * pow2 e"
  note r = round_double_unfold [OF x0 e_def m_def V_def]
  have e: "e = ilog2 \<bar>x\<bar> - 52" using il by (simp add: e_def)
  have c: "pow2 52 = of_int (2 ^ 52)" by (simp add: pow2_def)
  have "pow2 52 * pow2 e \<le> \<bar>x\<bar>"
    using ilog2_bounds(1) [OF a0] by (simp add: pow2_add [symmetric] e)
  then have q52: "pow2 52 \<le> \<bar>x\<bar> / pow2 e" using pow2_pos [of e] by (simp add: pos_le_divide_eq)
  have "2 ^ 52 \<le> m" unfolding m_def by (rule round_half_even_ge) (use q52 c in simp)
  then have "(of_int (2 ^ 52) :: rat) \<le> of_int m" by (simp only: of_int_le_iff)
  then have "pow2 52 \<le> of_int m" by (simp only: c)
  then have "pow2 52 * pow2 e \<le> V" unfolding V_def using pow2_pos [of e] by simp
  moreover have "pow2 1024 \<le> pow2 52 * pow2 e"
    unfolding pow2_add [symmetric] by (rule pow2_mono) (simp add: e il)
  ultimately have "pow2 1024 \<le> V" by simp
  then show ?thesis using r by simp
qed

lemma round_double_underflow:
  assumes "x \<noteq> 0" and "\<bar>x\<bar> \<le> pow2 (- 1075)"
  shows "round_double x = signed_zero (x < 0)"
proof -
  define e where "e = max (- 1074) (ilog2 \<bar>x\<bar> - 52)"
  define m where "m = round_half_even (\<bar>x\<bar> / pow2 e)"
  define V where "V = rat_of_int m * pow2 e"
  note r = round_double_unfold [OF assms(1) e_def m_def V_def]
  have "pow2 (- 1074) \<le> pow2 e" by (rule pow2_mono) (simp add: e_def)
  moreover have "pow2 (- 1074) = 2 * pow2 (- 1075)"
    using pow2_add [of 1 "- 1075"] by (simp add: pow2_def)
  ultimately have "2 * \<bar>x\<bar> \<le> pow2 e" using assms(2) by simp
  then have "\<bar>x\<bar> / pow2 e \<le> 1 / 2" using pow2_pos [of e] by (simp add: pos_divide_le_eq)
  moreover have "0 < \<bar>x\<bar> / pow2 e" using assms(1) pow2_pos [of e] by simp
  ultimately have "m = 0" unfolding m_def by (intro round_half_even_small)
  then have "V = 0" by (simp add: V_def)
  then show ?thesis using r pow2_pos [of 1024] by (simp add: not_le)
qed

lemma round_half_even_error: "\<bar>of_int (round_half_even q) - q\<bar> \<le> 1 / 2"
proof -
  define f where "f = \<lfloor>q\<rfloor>"
  define r where "r = q - of_int f"
  have b: "0 \<le> r" "r < 1" unfolding r_def f_def by linarith+
  have q: "q = of_int f + r" by (simp add: r_def)
  have "round_half_even q =
      (if r < 1 / 2 then f else if 1 / 2 < r then f + 1 else if even f then f else f + 1)"
    by (simp add: round_half_even_def Let_def f_def r_def)
  then show ?thesis using b by (auto simp: q)
qed

text \<open>
  The rounding is to a nearest double: the result is a multiple of the spacing \<open>pow2 e\<close>
  of the doubles around the number, with a significand of at most 53 bits, and is not
  further than half the spacing from the number.
\<close>

lemma round_double_nearest:
  assumes "x \<noteq> 0" and "round_double x = DFin v"
  shows "\<exists>m e. v = of_int m * pow2 e \<and> \<bar>m\<bar> \<le> 2 ^ 53 \<and> - 1074 \<le> e
            \<and> e = max (- 1074) (ilog2 \<bar>x\<bar> - 52) \<and> \<bar>v - x\<bar> \<le> pow2 e / 2"
proof -
  define e where "e = max (- 1074) (ilog2 \<bar>x\<bar> - 52)"
  define m where "m = round_half_even (\<bar>x\<bar> / pow2 e)"
  define V where "V = rat_of_int m * pow2 e"
  note r = round_double_unfold [OF assms(1) e_def m_def V_def]
  have a0: "0 < \<bar>x\<bar>" using assms(1) by simp
  have m0: "0 \<le> m" unfolding m_def using pow2_pos [of e] by (intro round_half_even_nonneg) simp
  have "\<bar>x\<bar> < pow2 (ilog2 \<bar>x\<bar> + 1)" using a0 by (rule ilog2_bounds)
  also have "\<dots> \<le> pow2 (e + 53)" by (rule pow2_mono) (simp add: e_def)
  also have "\<dots> = pow2 e * pow2 53" by (simp add: pow2_add)
  finally have "\<bar>x\<bar> / pow2 e < pow2 53" using pow2_pos [of e] by (simp add: pos_divide_less_eq mult.commute)
  moreover have c: "pow2 53 = of_int (2 ^ 53)" by (simp add: pow2_def)
  ultimately have q: "\<bar>x\<bar> / pow2 e < of_int (2 ^ 53)" by simp
  have err: "\<bar>of_int m - \<bar>x\<bar> / pow2 e\<bar> \<le> 1 / 2" unfolding m_def by (rule round_half_even_error)
  have "rat_of_int m < of_int (2 ^ 53) + 1" using q err by linarith
  then have "rat_of_int m < of_int (2 ^ 53 + 1)" by simp
  then have "m < 2 ^ 53 + 1" by (simp only: of_int_less_iff)
  then have m53: "\<bar>m\<bar> \<le> 2 ^ 53" using m0 by simp
  have "V - \<bar>x\<bar> = (of_int m - \<bar>x\<bar> / pow2 e) * pow2 e"
    using pow2_pos [of e] by (simp add: V_def left_diff_distrib)
  then have "\<bar>V - \<bar>x\<bar>\<bar> = \<bar>of_int m - \<bar>x\<bar> / pow2 e\<bar> * \<bar>pow2 e\<bar>"
    by (simp only: abs_mult)
  also have "\<dots> = \<bar>of_int m - \<bar>x\<bar> / pow2 e\<bar> * pow2 e"
    using pow2_pos [of e] by simp
  also have "\<dots> \<le> 1 / 2 * pow2 e" using err pow2_pos [of e] by (intro mult_right_mono) simp_all
  finally have Verr: "\<bar>V - \<bar>x\<bar>\<bar> \<le> pow2 e / 2" by simp
  have v: "v = (if 0 < x then V else - V)"
    using assms(2) r by (auto simp: signed_inf_def signed_zero_def split: if_splits)
  have "v = of_int (if 0 < x then m else - m) * pow2 e" using v by (simp add: V_def)
  moreover have "\<bar>if 0 < x then m else - m\<bar> \<le> 2 ^ 53" using m53 by simp
  moreover have "- 1074 \<le> e" by (simp add: e_def)
  moreover have "\<bar>v - x\<bar> \<le> pow2 e / 2" using Verr v assms(1) by (auto simp: abs_if split: if_splits)
  ultimately show ?thesis using e_def by blast
qed

lemma parseFloat_double_range:
  assumes "parseFloat_double s = DFin v"
  shows "v = 0 \<or> pow2 (- 1074) \<le> \<bar>v\<bar>"
  using assms round_double_range [of _ v]
  by (auto simp: parseFloat_double_def signed_zero_def split: jsnum.splits if_splits)

text \<open>
  Adding a zero to a double and taking it away again keeps the sign of the double and
  whether it is zero, which is all a division by zero looks at.
\<close>

lemma ddiv_zero_divisor:
  assumes "d_zero s" and "\<And>v. p = DFin v \<Longrightarrow> v = 0 \<or> pow2 (- 1074) \<le> \<bar>v\<bar>"
  shows "ddiv (dsub (dadd p s) s) s = ddiv p s"
proof -
  have s: "d_finite s" "d_val s = 0" "s \<noteq> DNaN" "d_zero (dneg s)" "d_finite (dneg s)"
    "d_val (dneg s) = 0" "dneg s \<noteq> DNaN"
    using assms(1) by (cases s; simp)+
  have zero: "ddiv (dsub (dadd p s) s) s = ddiv p s" if "d_zero p"
  proof -
    have "d_zero (dadd p s)" using that s assms(1) by (cases p) (auto simp: dadd_def signed_zero_def)
    then have "d_zero (dsub (dadd p s) s)"
      using s by (cases "dadd p s") (auto simp: dsub_def dadd_def signed_zero_def)
    then have "ddiv (dsub (dadd p s) s) s = DNaN"
      using assms(1) by (cases "dsub (dadd p s) s"; cases s) (auto simp: ddiv_def)
    moreover have "ddiv p s = DNaN"
      using assms(1) that by (cases p; cases s) (auto simp: ddiv_def)
    ultimately show ?thesis by simp
  qed
  have inf: "ddiv (dsub (dadd p s) s) s = ddiv p s" if "p = DPosInf \<or> p = DNegInf \<or> p = DNaN"
    using that s by (auto simp: dadd_def dsub_def)
  have keep: "ddiv (dsub x s) s = signed_inf ((w < 0) \<noteq> d_negative s)"
    if "x = signed_inf (w < 0) \<or> (\<exists>u. x = DFin u \<and> pow2 (- 1074) \<le> \<bar>u\<bar> \<and> (u < 0 \<longleftrightarrow> w < 0))"
    for x w
    using that
  proof
    assume "x = signed_inf (w < 0)"
    then show ?thesis using s assms(1) by (auto simp: dsub_def dadd_def ddiv_def signed_inf_def)
  next
    assume "\<exists>u. x = DFin u \<and> pow2 (- 1074) \<le> \<bar>u\<bar> \<and> (u < 0 \<longleftrightarrow> w < 0)"
    then obtain u where u: "x = DFin u" "pow2 (- 1074) \<le> \<bar>u\<bar>" "u < 0 \<longleftrightarrow> w < 0" by blast
    have u0: "u \<noteq> 0" using u(2) pow2_pos [of "- 1074"] by auto
    have sub: "dsub x s = round_double u" using u(1) u0 s by (simp add: dsub_def dadd_def)
    from round_double_keeps_sign [OF u(2)] show ?thesis
    proof
      assume "round_double u = signed_inf (u < 0)"
      then show ?thesis using sub u(3) s assms(1) by (auto simp: ddiv_def signed_inf_def)
    next
      assume "\<exists>v. round_double u = DFin v \<and> pow2 (- 1074) \<le> \<bar>v\<bar> \<and> (v < 0 \<longleftrightarrow> u < 0)"
      then obtain v where v: "round_double u = DFin v" "pow2 (- 1074) \<le> \<bar>v\<bar>" "v < 0 \<longleftrightarrow> u < 0"
        by blast
      have "v \<noteq> 0" using v(2) pow2_pos [of "- 1074"] by auto
      then show ?thesis using sub v u(3) s assms(1) by (auto simp: ddiv_def)
    qed
  qed
  show ?thesis
  proof (cases p)
    case (DFin v)
    show ?thesis
    proof (cases "v = 0")
      case True
      then show ?thesis using zero DFin by simp
    next
      case False
      then have lo: "pow2 (- 1074) \<le> \<bar>v\<bar>" using assms(2) [OF DFin] by simp
      have add: "dadd p s = round_double v" using DFin False s by (simp add: dadd_def)
      have "ddiv (dsub (dadd p s) s) s = signed_inf ((v < 0) \<noteq> d_negative s)"
        unfolding add using round_double_keeps_sign [OF lo] by (rule keep)
      moreover have "ddiv p s = signed_inf ((v < 0) \<noteq> d_negative s)"
        using DFin False s assms(1) by (simp add: ddiv_def)
      ultimately show ?thesis by simp
    qed
  next
    case DNegZero
    then show ?thesis using zero by simp
  qed (use inf in auto)
qed

text \<open>Values of the rounding and of the four operations, by computation.\<close>

lemma round_double_examples:
  "round_double (1 / 10) = DFin (3602879701896397 / 36028797018963968)"
  "round_double 9007199254740993 = DFin 9007199254740992"
  "round_double 9007199254740995 = DFin 9007199254740996"
  "round_double (- 9007199254740993) = DFin (- 9007199254740992)"
  "round_double 500 = DFin 500"
  by code_simp+

lemma double_arithmetic_examples:
  "dadd (round_double (1 / 10)) (round_double (2 / 10)) = DFin (1351079888211149 / 4503599627370496)"
  "round_double (3 / 10) = DFin (5404319552844595 / 18014398509481984)"
  "ddiv (DFin 1) (DFin 3) = DFin (6004799503160661 / 18014398509481984)"
  "dsub (DFin 5) (DFin 5) = DFin 0"
  "dsub DNegZero (DFin 0) = DNegZero"
  "dadd DNegZero (DFin 0) = DFin 0"
  "dsub DPosInf DPosInf = DNaN"
  "dmul DPosInf DNegZero = DNaN"
  "ddiv (DFin 1) DNegInf = DNegZero"
  "ddiv (DFin 0) DNegZero = DNaN"
  by code_simp+

lemma parseFloat_double_examples:
  "parseFloat_double ''-0'' = DNegZero"
  "parseFloat_double ''0.0'' = DFin 0"
  "parseFloat_double '' -0.00'' = DNegZero"
  "parseFloat_double ''-Infinity'' = DNegInf"
  "parseFloat_double ''9007199254740993'' = DFin 9007199254740992"
  "parseFloat_double ''abc'' = DNaN"
  "parseFloat_double ''0.1'' = DFin (3602879701896397 / 36028797018963968)"
  by code_simp+

text \<open>Literals beyond the range of the doubles.\<close>

lemma parseFloat_double_overflow: "parseFloat_double ''1e309'' = DPosInf"
proof -
  have p: "parseFloat ''1e309'' = Fin (10 ^ 309)" by code_simp
  have "pow2 1024 \<le> \<bar>(10::rat) ^ 309\<bar>" by (simp add: pow2_def)
  then have "round_double (10 ^ 309) = signed_inf ((10::rat) ^ 309 < 0)"
    by (rule round_double_overflow)
  then show ?thesis by (simp add: parseFloat_double_def p signed_inf_def)
qed

lemma parseFloat_double_underflow: "parseFloat_double ''1e-324'' = DFin 0"
proof -
  have p: "parseFloat ''1e-324'' = Fin (1 / 10 ^ 324)" by code_simp
  have "\<bar>1 / (10::rat) ^ 324\<bar> \<le> pow2 (- 1075)" by (simp add: pow2_def)
  then have "round_double (1 / 10 ^ 324) = signed_zero (1 / (10::rat) ^ 324 < 0)"
    by (intro round_double_underflow) simp
  then show ?thesis by (simp add: parseFloat_double_def p signed_zero_def)
qed

lemma parseFloat_double_negative_underflow: "parseFloat_double ''-1e-324'' = DNegZero"
proof -
  have p: "parseFloat ''-1e-324'' = Fin (- (1 / 10 ^ 324))" by code_simp
  have "\<bar>- (1 / (10::rat) ^ 324)\<bar> \<le> pow2 (- 1075)" by (simp add: pow2_def)
  then have "round_double (- (1 / 10 ^ 324)) = signed_zero (- (1 / (10::rat) ^ 324) < 0)"
    by (intro round_double_underflow) simp
  then show ?thesis by (simp add: parseFloat_double_def p signed_zero_def)
qed

text \<open>An operation on a value that is not finite, and a division by a zero.\<close>

lemma signed_inf_not_finite: "\<not> d_finite (signed_inf b)"
  by (simp add: signed_inf_def)

lemma ddiv_zero_not_finite: "d_zero y \<Longrightarrow> \<not> d_finite (ddiv x y)"
  by (cases y) (simp_all add: ddiv_def signed_inf_not_finite)

lemma dadd_not_finite: "\<not> d_finite x \<Longrightarrow> \<not> d_finite (dadd x y)"
  by (simp add: dadd_def)

lemma dsub_not_finite: "\<not> d_finite x \<Longrightarrow> \<not> d_finite (dsub x y)"
  by (simp add: dsub_def dadd_not_finite)

lemma dmul_not_finite: "\<not> d_finite x \<Longrightarrow> \<not> d_finite (dmul x y)"
  by (simp add: dmul_def signed_inf_not_finite)

section \<open>The status filter of the stakes table\<close>

text \<open>
  Claim C6. With the other criteria of the filter satisfied (the record passes the filter
  with status \<open>all\<close>, where the status criterion excludes nothing), status \<open>active\<close>
  includes a stake record exactly when it has no StakeEnd and status \<open>ended\<close> exactly when
  it has one; a record that passes with any status passes with \<open>all\<close>; and the same on the
  filtered page.
\<close>

theorem stake_status_filter:
  "(stake_filter dp StatusAll sa sr er stake \<longrightarrow>
      (stake_filter dp StatusActive sa sr er stake \<longleftrightarrow> stakeEnd stake = None)
      \<and> (stake_filter dp StatusEnded sa sr er stake \<longleftrightarrow> stakeEnd stake \<noteq> None))
   \<and> (stake_filter dp st sa sr er stake \<longrightarrow> stake_filter dp StatusAll sa sr er stake)
   \<and> (stakeEnd stake = None \<longrightarrow> \<not> stake_filter dp StatusEnded sa sr er stake)
   \<and> (stakeEnd stake \<noteq> None \<longrightarrow> \<not> stake_filter dp StatusActive sa sr er stake)
   \<and> (stake \<in> set (filteredStakes dp StatusActive sa sr er (Some stakes)) \<longleftrightarrow>
        stake \<in> set (filteredStakes dp StatusAll sa sr er (Some stakes)) \<and> stakeEnd stake = None)
   \<and> (stake \<in> set (filteredStakes dp StatusEnded sa sr er (Some stakes)) \<longleftrightarrow>
        stake \<in> set (filteredStakes dp StatusAll sa sr er (Some stakes)) \<and> stakeEnd stake \<noteq> None)"
  unfolding stake_filter_def filteredStakes_def Let_def
  by (cases st) auto

theorem stake_status_filter_witness:
  "stake_filter iso_date_parse StatusAll ''abc'' example_start_range example_end_range (example_stake None)
   \<and> stake_filter iso_date_parse StatusActive ''abc'' example_start_range example_end_range (example_stake None)
   \<and> \<not> stake_filter iso_date_parse StatusEnded ''abc'' example_start_range example_end_range (example_stake None)
   \<and> stake_filter iso_date_parse StatusAll ''abc'' example_start_range example_end_range (example_stake (Some example_end))
   \<and> stake_filter iso_date_parse StatusEnded ''abc'' example_start_range example_end_range (example_stake (Some example_end))
   \<and> \<not> stake_filter iso_date_parse StatusActive ''abc'' example_start_range example_end_range (example_stake (Some example_end))"
proof -
  have a: "stake_filter iso_date_parse StatusAll ''abc'' example_start_range example_end_range (example_stake None)"
    by code_simp
  have b: "stake_filter iso_date_parse StatusAll ''abc'' example_start_range example_end_range (example_stake (Some example_end))"
    by code_simp
  have n: "stakeEnd (example_stake None) = None" "stakeEnd (example_stake (Some example_end)) \<noteq> None"
    by (simp_all add: example_stake_def)
  show ?thesis
    using a b n
      stake_status_filter [of iso_date_parse "''abc''" example_start_range example_end_range "example_stake None" StatusAll "[]"]
      stake_status_filter [of iso_date_parse "''abc''" example_start_range example_end_range "example_stake (Some example_end)" StatusAll "[]"]
    by blast
qed

section \<open>The unguarded division of the ROI\<close>

text \<open>
  Claim C8, amended. The ROI of the sort comparator and of the table cell is \<open>0\<close> (the
  cell \<open>'-'\<close>) for a stake without a StakeEnd. For a stake with one it is
  \<open>((payout + staked) - staked) / staked\<close> in double arithmetic, each step rounded, times
  100 in the cell. Nothing guards the divisor: when the StakeEnd exists and stakedHearts
  parses to a zero (\<open>0\<close> or \<open>-0\<close>) the computation is the division of the payout by that
  zero and its result is not finite (an infinity or NaN), in the ROI of the comparator,
  in the value the comparator returns against any other stake and in either direction,
  and in the cell.
\<close>

theorem roi_division_unguarded:
  "(stakeEnd a = None \<longrightarrow> sort_roi a = DFin 0 \<and> roi_cell a = None)
   \<and> (stakeEnd a = Some e \<longrightarrow>
        sort_roi a =
          ddiv (dsub (dadd (parseFloat_double (payout e)) (parseFloat_double (StakeStart.stakedHearts a)))
                     (parseFloat_double (StakeStart.stakedHearts a)))
               (parseFloat_double (StakeStart.stakedHearts a))
        \<and> roi_cell a = Some (dmul (sort_roi a) (DFin 100)))
   \<and> (stakeEnd a = Some e \<and> d_zero (parseFloat_double (StakeStart.stakedHearts a)) \<longrightarrow>
        sort_roi a = ddiv (parseFloat_double (payout e)) (parseFloat_double (StakeStart.stakedHearts a))
        \<and> \<not> d_finite (sort_roi a)
        \<and> (\<exists>v. roi_cell a = Some v \<and> \<not> d_finite v)
        \<and> \<not> d_finite (compare_roi sortDirection a b))"
proof -
  have p1: "stakeEnd a = None \<longrightarrow> sort_roi a = DFin 0 \<and> roi_cell a = None"
    by (simp add: sort_roi_def roi_cell_def)
  have p2: "sort_roi a =
          ddiv (dsub (dadd (parseFloat_double (payout e)) (parseFloat_double (StakeStart.stakedHearts a)))
                     (parseFloat_double (StakeStart.stakedHearts a)))
               (parseFloat_double (StakeStart.stakedHearts a))
        \<and> roi_cell a = Some (dmul (sort_roi a) (DFin 100))"
    if "stakeEnd a = Some e"
    using that by (simp add: sort_roi_def roi_cell_def Let_def)
  have p3: "sort_roi a = ddiv (parseFloat_double (payout e)) (parseFloat_double (StakeStart.stakedHearts a))
        \<and> \<not> d_finite (sort_roi a)
        \<and> (\<exists>v. roi_cell a = Some v \<and> \<not> d_finite v)
        \<and> \<not> d_finite (compare_roi sortDirection a b)"
    if e: "stakeEnd a = Some e" and z: "d_zero (parseFloat_double (StakeStart.stakedHearts a))"
  proof -
    have nf: "\<not> d_finite (sort_roi a)"
      using p2 [OF e] ddiv_zero_not_finite [OF z] by simp
    have "\<not> d_finite (dmul (sort_roi a) (DFin 100))"
      using nf by (rule dmul_not_finite)
    moreover have "\<not> d_finite (compare_roi sortDirection a b)"
      unfolding compare_roi_def using nf by (intro dmul_not_finite dsub_not_finite)
    moreover have "sort_roi a = ddiv (parseFloat_double (payout e)) (parseFloat_double (StakeStart.stakedHearts a))"
      using p2 [OF e] ddiv_zero_divisor [OF z parseFloat_double_range] by simp
    ultimately show ?thesis using nf p2 [OF e] by simp
  qed
  show ?thesis using p1 p2 p3 by blast
qed

lemma example_stake_facts:
  "parseFloat_double (StakeStart.stakedHearts (example_stake (Some example_end))) = DFin 0"
  "parseFloat_double (payout example_end) = DFin 500"
  "parseFloat_double (StakeStart.stakedHearts negative_zero_stake) = DNegZero"
  "ddiv (DFin 500) (DFin 0) = DPosInf"
  "ddiv (DFin 500) DNegZero = DNegInf"
  "dmul DPosInf (DFin 100) = DPosInf"
  "dmul DNegInf (DFin 100) = DNegInf"
  by code_simp+

theorem roi_division_unguarded_witness:
  "stakeEnd (example_stake (Some example_end)) = Some example_end
   \<and> parseFloat_double (payout example_end) = DFin 500
   \<and> parseFloat_double (StakeStart.stakedHearts (example_stake (Some example_end))) = DFin 0
   \<and> d_zero (parseFloat_double (StakeStart.stakedHearts (example_stake (Some example_end))))
   \<and> sort_roi (example_stake (Some example_end)) = DPosInf
   \<and> roi_cell (example_stake (Some example_end)) = Some DPosInf
   \<and> \<not> d_finite (compare_roi Desc (example_stake (Some example_end)) (example_stake None))
   \<and> stakeEnd negative_zero_stake = Some example_end
   \<and> parseFloat_double (StakeStart.stakedHearts negative_zero_stake) = DNegZero
   \<and> sort_roi negative_zero_stake = DNegInf
   \<and> roi_cell negative_zero_stake = Some DNegInf
   \<and> stakeEnd (example_stake None) = None
   \<and> sort_roi (example_stake None) = DFin 0
   \<and> roi_cell (example_stake None) = None"
proof -
  note f = example_stake_facts
  have a: "stakeEnd (example_stake (Some example_end)) = Some example_end"
    by (simp add: example_stake_def)
  have n: "stakeEnd negative_zero_stake = Some example_end"
    by (simp add: negative_zero_stake_def example_stake_def)
  have d: "stakeEnd (example_stake None) = None"
    by (simp add: example_stake_def)
  have z: "d_zero (parseFloat_double (StakeStart.stakedHearts (example_stake (Some example_end))))"
    using f(1) by simp
  have z2: "d_zero (parseFloat_double (StakeStart.stakedHearts negative_zero_stake))"
    using f(3) by simp
  note t1 = roi_division_unguarded [of "example_stake (Some example_end)" example_end Desc "example_stake None"]
  note t2 = roi_division_unguarded [of negative_zero_stake example_end Desc "example_stake None"]
  note t3 = roi_division_unguarded [of "example_stake None" example_end Desc "example_stake None"]
  have r1: "sort_roi (example_stake (Some example_end)) = DPosInf"
  proof -
    from t1 a z have "sort_roi (example_stake (Some example_end)) =
        ddiv (parseFloat_double (payout example_end))
             (parseFloat_double (StakeStart.stakedHearts (example_stake (Some example_end))))"
      by blast
    then show ?thesis by (simp add: f)
  qed
  have c1: "roi_cell (example_stake (Some example_end)) = Some DPosInf"
  proof -
    from t1 a have "roi_cell (example_stake (Some example_end)) =
        Some (dmul (sort_roi (example_stake (Some example_end))) (DFin 100))"
      by blast
    then show ?thesis by (simp add: r1 f)
  qed
  have k1: "\<not> d_finite (compare_roi Desc (example_stake (Some example_end)) (example_stake None))"
    using t1 a z by blast
  have r2: "sort_roi negative_zero_stake = DNegInf"
  proof -
    from t2 n z2 have "sort_roi negative_zero_stake =
        ddiv (parseFloat_double (payout example_end))
             (parseFloat_double (StakeStart.stakedHearts negative_zero_stake))"
      by blast
    then show ?thesis by (simp add: f)
  qed
  have c2: "roi_cell negative_zero_stake = Some DNegInf"
  proof -
    from t2 n have "roi_cell negative_zero_stake = Some (dmul (sort_roi negative_zero_stake) (DFin 100))"
      by blast
    then show ?thesis by (simp add: r2 f)
  qed
  have r3: "sort_roi (example_stake None) = DFin 0 \<and> roi_cell (example_stake None) = None"
    using t3 d by blast
  show ?thesis using a n d z r1 c1 k1 r2 c2 r3 f by simp
qed

text \<open>
  Claim C8 as stated fails in its first half: the ROI is not always payout divided by
  stakedHearts. With a payout of \<open>1\<close> and \<open>9007199254740992\<close> staked hearts the sum
  \<open>9007199254740993\<close> is no double and rounds to \<open>9007199254740992\<close>; the difference is
  \<open>0\<close> and so are the ROI and the cell, where the payout divided by the staked hearts is
  \<open>1 / 9007199254740992\<close>.
\<close>

theorem roi_rounds_payout_away:
  "stakeEnd large_stake = Some large_end
   \<and> parseFloat_double (payout large_end) = DFin 1
   \<and> parseFloat_double (StakeStart.stakedHearts large_stake) = DFin 9007199254740992
   \<and> dadd (DFin 1) (DFin 9007199254740992) = DFin 9007199254740992
   \<and> sort_roi large_stake = DFin 0
   \<and> roi_cell large_stake = Some (DFin 0)
   \<and> ddiv (parseFloat_double (payout large_end)) (parseFloat_double (StakeStart.stakedHearts large_stake))
       = DFin (1 / 9007199254740992)
   \<and> sort_roi large_stake
       \<noteq> ddiv (parseFloat_double (payout large_end)) (parseFloat_double (StakeStart.stakedHearts large_stake))"
  by code_simp

section \<open>The keys of the day buckets\<close>

text \<open>
  A date part of an ISO string ends with a digit, so it is none of the names a plain
  object inherits: reading and writing \<open>dailyAmounts[dateKey]\<close> only ever concerns own
  properties, as \<open>daily_add\<close> and \<open>daily_get\<close> have it.
\<close>

lemma digit_char_is_digit: "is_digit (digit_char n)"
proof -
  have "n mod 10 < length ''0123456789''" by simp
  then have "''0123456789'' ! (n mod 10) \<in> set ''0123456789''" by (rule nth_mem)
  then show ?thesis by (simp only: is_digit_def digit_char_def)
qed

lemma date_key_last_digit:
  assumes "toISOString_date ts = Some k"
  shows "k \<noteq> [] \<and> is_digit (last k)"
proof -
  from assms obtain t where "ts = Some t" by (cases ts) (simp_all add: toISOString_date_def)
  with assms obtain y m dd where
    k: "k = iso_year y @ ''-'' @ pad_digits 2 (nat m) @ ''-'' @ pad_digits 2 (nat dd)"
    by (auto simp: toISOString_date_def split: prod.splits)
  have "pad_digits 2 (nat dd) = pad_digits 1 (nat dd div 10) @ [digit_char (nat dd)]"
    by (simp add: numeral_2_eq_2)
  then have "last k = digit_char (nat dd)" and "k \<noteq> []" using k by simp_all
  then show ?thesis using digit_char_is_digit by simp
qed

lemma date_key_not_inherited:
  assumes "toISOString_date ts = Some k"
  shows "\<not> inherited_key k"
proof
  assume "inherited_key k"
  then have "\<not> is_digit (last k)"
    by (auto simp: inherited_key_def is_digit_def)
  then show False using date_key_last_digit [OF assms] by simp
qed

section \<open>The day series of the flush pipeline\<close>

lemma js_add_zero_left: "js_add (Fin 0) x = x"
  by (cases x) simp_all

lemma process_line_daily:
  assumes "process_line dp t l (s, d) = Inr (s', d')"
  shows "d' = d \<or> (\<exists>k a. d' = daily_add k a d \<and> (t \<noteq> Internal \<longrightarrow> js_gt a (Fin 0)))"
  using assms
  unfolding process_line_def processTransaction_def Let_def
  by (auto split: if_splits option.splits)

lemma daily_add_distinct: "distinct (map fst d) \<Longrightarrow> distinct (map fst (daily_add k a d))"
  by (simp add: daily_add_def distinct_update)

lemma process_lines_distinct_daily:
  "process_lines dp t ls (s, d) = Inr (s', d') \<Longrightarrow> distinct (map fst d) \<Longrightarrow> distinct (map fst d')"
proof (induction ls arbitrary: s d)
  case Nil
  then show ?case by simp
next
  case (Cons l ls)
  from Cons.prems(1) obtain s1 d1 where
    step: "process_line dp t l (s, d) = Inr (s1, d1)" and rest: "process_lines dp t ls (s1, d1) = Inr (s', d')"
    by (auto split: sum.splits)
  have "distinct (map fst d1)"
    using process_line_daily [OF step] Cons.prems(2) daily_add_distinct by auto
  then show ?case using Cons.IH [OF rest] by simp
qed

lemma running_totals_dates: "map date (running_totals d c ds) = ds"
  by (induction ds arbitrary: c) (simp_all add: Let_def)

lemma running_totals_length: "length (running_totals d c ds) = length ds"
  by (induction ds arbitrary: c) (simp_all add: Let_def)

lemma running_totals_amounts: "map DailyTotal.amount (running_totals d c ds) = map (daily_get d) ds"
  by (induction ds arbitrary: c) (simp_all add: Let_def)

lemma running_totals_cumulative:
  "i < length ds \<Longrightarrow>
   cumulative (running_totals d c ds ! i) = foldl js_add c (map (daily_get d) (take (Suc i) ds))"
proof (induction ds arbitrary: c i)
  case Nil
  then show ?case by simp
next
  case (Cons x xs)
  show ?case
  proof (cases i)
    case 0
    then show ?thesis by (simp add: Let_def)
  next
    case (Suc j)
    then have "j < length xs" using Cons.prems by simp
    from Cons.IH [OF this] show ?thesis using Suc by (simp add: Let_def)
  qed
qed

lemma flush_Inr:
  assumes "flush dp t csv = Inr (summary, totals)"
  obtains d where "process_lines dp t (drop 1 (split (CHR 0x0A) csv)) ([], []) = Inr (summary, d)"
    and "totals = running_totals d (Fin 0) (sort (map fst d))"
    and "distinct (map fst d)"
proof -
  from assms obtain d where
    p: "process_lines dp t (drop 1 (split (CHR 0x0A) csv)) ([], []) = Inr (summary, d)"
    and t: "totals = dailyTotals_of d"
    by (auto simp: flush_def Let_def split: sum.splits prod.splits)
  have "distinct (map fst d)" using process_lines_distinct_daily [OF p] by simp
  then show ?thesis using that p t by (simp add: dailyTotals_of_def)
qed

text \<open>
  Claim C2. In every day series the pass produces, for every CSV text and every
  transaction type: the dates are strictly ascending (in the order of strings, the one
  \<open>sort()\<close> uses), the first cumulative is the first amount, every later cumulative is
  the cumulative before it plus the amount of its day, and the last cumulative is the sum
  of all amounts of the series, added from \<open>0\<close> in the order of the dates. Equality is
  identity of number values.
\<close>

theorem daily_totals_cumulative:
  assumes "flush dp t csv = Inr (summary, totals)"
  shows "sorted_wrt (<) (map date totals)
    \<and> (totals \<noteq> [] \<longrightarrow> cumulative (totals ! 0) = DailyTotal.amount (totals ! 0))
    \<and> (\<forall>i. 0 < i \<and> i < length totals \<longrightarrow>
          cumulative (totals ! i) = js_add (cumulative (totals ! (i - 1))) (DailyTotal.amount (totals ! i)))
    \<and> (totals \<noteq> [] \<longrightarrow>
          cumulative (last totals) = foldl js_add (Fin 0) (map DailyTotal.amount totals))"
proof -
  from assms obtain d where
    tot: "totals = running_totals d (Fin 0) (sort (map fst d))" and dist: "distinct (map fst d)"
    by (rule flush_Inr)
  define ds where "ds = sort (map fst d)"
  have tot': "totals = running_totals d (Fin 0) ds" using tot ds_def by simp
  have len: "length totals = length ds" by (simp add: tot' running_totals_length)
  have am: "map DailyTotal.amount totals = map (daily_get d) ds"
    by (simp add: tot' running_totals_amounts)
  have cum: "cumulative (totals ! i) = foldl js_add (Fin 0) (map (daily_get d) (take (Suc i) ds))"
    if "i < length ds" for i
    using that by (simp add: tot' running_totals_cumulative)
  have ami: "DailyTotal.amount (totals ! i) = daily_get d (ds ! i)" if "i < length ds" for i
  proof -
    have "DailyTotal.amount (totals ! i) = map DailyTotal.amount totals ! i"
      using that len by simp
    then show ?thesis using am that by simp
  qed
  have s1: "sorted_wrt (<) (map date totals)"
    using dist by (simp add: tot' running_totals_dates ds_def strict_sorted_iff)
  have s2: "totals \<noteq> [] \<longrightarrow> cumulative (totals ! 0) = DailyTotal.amount (totals ! 0)"
  proof
    assume "totals \<noteq> []"
    then have pos: "0 < length ds" using len by (cases totals) auto
    then have "take (Suc 0) ds = [ds ! 0]" by (cases ds) simp_all
    then show "cumulative (totals ! 0) = DailyTotal.amount (totals ! 0)"
      using cum [OF pos] ami [OF pos] by (simp add: js_add_zero_left)
  qed
  have s3: "\<forall>i. 0 < i \<and> i < length totals \<longrightarrow>
          cumulative (totals ! i) = js_add (cumulative (totals ! (i - 1))) (DailyTotal.amount (totals ! i))"
  proof (intro allI impI)
    fix i assume i: "0 < i \<and> i < length totals"
    then obtain j where j: "i = Suc j" by (cases i) auto
    have lt: "Suc j < length ds" "j < length ds" using i j len by simp_all
    have "take (Suc (Suc j)) ds = take (Suc j) ds @ [ds ! Suc j]"
      using lt(1) by (simp add: take_Suc_conv_app_nth)
    then show "cumulative (totals ! i) = js_add (cumulative (totals ! (i - 1))) (DailyTotal.amount (totals ! i))"
      using cum [OF lt(1)] cum [OF lt(2)] ami [OF lt(1)] j by simp
  qed
  have s4: "totals \<noteq> [] \<longrightarrow>
          cumulative (last totals) = foldl js_add (Fin 0) (map DailyTotal.amount totals)"
  proof
    assume ne: "totals \<noteq> []"
    then have pos: "length ds - 1 < length ds" using len by (cases totals) auto
    have "last totals = totals ! (length ds - 1)" using ne len by (simp add: last_conv_nth)
    moreover have "take (Suc (length ds - 1)) ds = ds" using pos by simp
    ultimately show "cumulative (last totals) = foldl js_add (Fin 0) (map DailyTotal.amount totals)"
      using cum [OF pos] am by simp
  qed
  show ?thesis using s1 s2 s3 s4 by blast
qed


text \<open>The pass on the example text, in mode \<open>send\<close>.\<close>

lemma example_send_run:
  "flush iso_date_parse Send example_csv = Inr (example_send_summary, example_send_totals)"
  by code_simp

theorem daily_totals_cumulative_witness:
  "flush iso_date_parse Send example_csv = Inr (example_send_summary, example_send_totals)
   \<and> sorted_wrt (<) (map date example_send_totals)
   \<and> cumulative (example_send_totals ! 0) = DailyTotal.amount (example_send_totals ! 0)
   \<and> cumulative (example_send_totals ! 2)
       = js_add (cumulative (example_send_totals ! 1)) (DailyTotal.amount (example_send_totals ! 2))
   \<and> cumulative (last example_send_totals)
       = foldl js_add (Fin 0) (map DailyTotal.amount example_send_totals)"
proof -
  note t = daily_totals_cumulative [OF example_send_run]
  have ne: "example_send_totals \<noteq> []" and len: "(0::nat) < 2 \<and> 2 < length example_send_totals"
    by (simp_all add: example_send_totals_def)
  have a: "sorted_wrt (<) (map date example_send_totals)" using t by blast
  have b: "cumulative (example_send_totals ! 0) = DailyTotal.amount (example_send_totals ! 0)"
    using t ne by blast
  have c: "cumulative (example_send_totals ! 2)
       = js_add (cumulative (example_send_totals ! (2 - 1))) (DailyTotal.amount (example_send_totals ! 2))"
    using t len by blast
  have d: "cumulative (last example_send_totals)
       = foldl js_add (Fin 0) (map DailyTotal.amount example_send_totals)"
    using t ne by blast
  have e: "(2::nat) - 1 = 1" by simp
  show ?thesis using example_send_run a b c [unfolded e] d by blast
qed

subsection \<open>Monotonicity of the cumulative sums\<close>

lemma js_le_refl: "x \<noteq> NaN \<Longrightarrow> js_le x x"
  by (cases x) (simp_all add: js_le_def)

lemma js_le_trans: "js_le x y \<Longrightarrow> js_le y z \<Longrightarrow> js_le x z"
  by (cases x; cases y; cases z) (simp_all add: js_le_def)

lemma js_le_not_NaN: "js_le x y \<Longrightarrow> x \<noteq> NaN \<and> y \<noteq> NaN"
  by (simp add: js_le_def)

lemma js_add_nonneg:
  "js_le (Fin 0) c \<Longrightarrow> js_le (Fin 0) a \<Longrightarrow> js_le c (js_add c a) \<and> js_le (Fin 0) (js_add c a)"
  by (cases c; cases a) (simp_all add: js_le_def)

lemma js_gt_imp_le: "js_gt a (Fin 0) \<Longrightarrow> js_le (Fin 0) a"
  by (cases a) (simp_all add: js_le_def js_gt_def)

lemma js_add_pos: "js_gt v (Fin 0) \<Longrightarrow> js_gt a (Fin 0) \<Longrightarrow> js_gt (js_add (js_or v (Fin 0)) a) (Fin 0)"
  by (cases v; cases a) (simp_all add: js_gt_def js_or_def)

lemma daily_add_lookup:
  "map_of (daily_add k a d) k' =
     (if k' = k then Some (js_add (case map_of d k of None \<Rightarrow> Fin 0 | Some v \<Rightarrow> js_or v (Fin 0)) a)
      else map_of d k')"
  by (simp add: daily_add_def update_conv')

lemma daily_add_positive:
  assumes "\<forall>k v. map_of d k = Some v \<longrightarrow> js_gt v (Fin 0)" and "js_gt a (Fin 0)"
  shows "\<forall>k' v. map_of (daily_add k a d) k' = Some v \<longrightarrow> js_gt v (Fin 0)"
proof (intro allI impI)
  fix k' v assume h: "map_of (daily_add k a d) k' = Some v"
  show "js_gt v (Fin 0)"
  proof (cases "k' = k")
    case False
    then show ?thesis using h assms(1) by (simp add: daily_add_lookup)
  next
    case True
    show ?thesis
    proof (cases "map_of d k")
      case None
      then show ?thesis using h True assms(2) by (simp add: daily_add_lookup js_add_zero_left)
    next
      case (Some w)
      then have "js_gt w (Fin 0)" using assms(1) by blast
      then show ?thesis using h True Some assms(2) js_add_pos [of w a] by (auto simp: daily_add_lookup)
    qed
  qed
qed

lemma process_lines_daily_positive:
  "t \<noteq> Internal \<Longrightarrow> process_lines dp t ls (s, d) = Inr (s', d') \<Longrightarrow>
   \<forall>k v. map_of d k = Some v \<longrightarrow> js_gt v (Fin 0) \<Longrightarrow>
   \<forall>k v. map_of d' k = Some v \<longrightarrow> js_gt v (Fin 0)"
proof (induction ls arbitrary: s d)
  case Nil
  then show ?case by simp
next
  case (Cons l ls)
  from Cons.prems(2) obtain s1 d1 where
    step: "process_line dp t l (s, d) = Inr (s1, d1)" and rest: "process_lines dp t ls (s1, d1) = Inr (s', d')"
    by (auto split: sum.splits)
  have "\<forall>k v. map_of d1 k = Some v \<longrightarrow> js_gt v (Fin 0)"
    using process_line_daily [OF step] Cons.prems(1,3) daily_add_positive by blast
  then show ?case using Cons.IH [OF Cons.prems(1) rest] by simp
qed

lemma running_totals_sorted:
  "js_le (Fin 0) c \<Longrightarrow> \<forall>k\<in>set ds. js_le (Fin 0) (daily_get d k) \<Longrightarrow>
   sorted_wrt js_le (c # map cumulative (running_totals d c ds))"
proof (induction ds arbitrary: c)
  case Nil
  then show ?case by simp
next
  case (Cons x xs)
  let ?c' = "js_add c (daily_get d x)"
  have step: "js_le c ?c'" "js_le (Fin 0) ?c'"
    using js_add_nonneg [of c "daily_get d x"] Cons.prems by simp_all
  have ih: "sorted_wrt js_le (?c' # map cumulative (running_totals d ?c' xs))"
    using Cons.IH [OF step(2)] Cons.prems(2) by simp
  then have "\<forall>y\<in>set (map cumulative (running_totals d ?c' xs)). js_le c y"
    using step(1) js_le_trans by auto
  then show ?case using ih step(1) by (simp add: Let_def)
qed

lemma filter_le_take:
  fixes f :: "'a \<Rightarrow> 'b::linorder"
  shows "sorted_wrt (<) (map f xs) \<Longrightarrow> i < length xs \<Longrightarrow>
         filter (\<lambda>x. f x \<le> f (xs ! i)) xs = take (Suc i) xs"
proof (induction xs arbitrary: i)
  case Nil
  then show ?case by simp
next
  case (Cons x xs)
  have gt: "\<forall>y\<in>set xs. f x < f y" using Cons.prems(1) by simp
  show ?case
  proof (cases i)
    case 0
    have "filter (\<lambda>y. f y \<le> f x) xs = []" using gt by (auto simp: filter_empty_conv)
    then show ?thesis using 0 by simp
  next
    case (Suc j)
    then have j: "j < length xs" using Cons.prems(2) by simp
    then have "f x < f (xs ! j)" using gt by simp
    moreover have "filter (\<lambda>y. f y \<le> f (xs ! j)) xs = take (Suc j) xs"
      using Cons.IH [OF _ j] Cons.prems(1) by simp
    ultimately show ?thesis using Suc by simp
  qed
qed

text \<open>
  Claim C3, amended. In every day series the pass produces, for every transaction type,
  the cumulative of an entry is the sum of the amounts of the entries whose date is at
  most its date (added from \<open>0\<close> in the order of the dates). The cumulative is
  non-decreasing along the series in the modes \<open>send\<close> and \<open>receive\<close>, where only
  amounts greater than \<open>0\<close> are added, and in mode \<open>internal\<close> whenever no day has a
  negative (or NaN) amount; mode \<open>internal\<close> accepts negative amounts, and then the
  cumulative can decrease.
\<close>

theorem cumulative_prefix_sums:
  assumes "flush dp t csv = Inr (summary, totals)"
  shows "(\<forall>e\<in>set totals. cumulative e =
            foldl js_add (Fin 0) (map DailyTotal.amount (filter (\<lambda>x. date x \<le> date e) totals)))
    \<and> ((t \<noteq> Internal \<or> (\<forall>e\<in>set totals. js_le (Fin 0) (DailyTotal.amount e))) \<longrightarrow>
         (\<forall>i j. i \<le> j \<and> j < length totals \<longrightarrow>
            js_le (cumulative (totals ! i)) (cumulative (totals ! j))))"
proof -
  from assms obtain d where
    run: "process_lines dp t (drop 1 (split (CHR 0x0A) csv)) ([], []) = Inr (summary, d)"
    and tot: "totals = running_totals d (Fin 0) (sort (map fst d))" and dist: "distinct (map fst d)"
    by (rule flush_Inr)
  define ds where "ds = sort (map fst d)"
  have tot': "totals = running_totals d (Fin 0) ds" using tot ds_def by simp
  have len: "length totals = length ds" by (simp add: tot' running_totals_length)
  have am: "map DailyTotal.amount totals = map (daily_get d) ds"
    by (simp add: tot' running_totals_amounts)
  have srt: "sorted_wrt (<) (map date totals)"
    using dist by (simp add: tot' running_totals_dates ds_def strict_sorted_iff)
  have p1: "\<forall>e\<in>set totals. cumulative e =
            foldl js_add (Fin 0) (map DailyTotal.amount (filter (\<lambda>x. date x \<le> date e) totals))"
  proof
    fix e assume "e \<in> set totals"
    then obtain i where i: "i < length totals" "e = totals ! i" by (auto simp: in_set_conv_nth)
    have "filter (\<lambda>x. date x \<le> date e) totals = take (Suc i) totals"
      using filter_le_take [OF srt i(1)] i(2) by simp
    then have "map DailyTotal.amount (filter (\<lambda>x. date x \<le> date e) totals)
        = map (daily_get d) (take (Suc i) ds)"
      using am by (simp add: take_map [symmetric])
    moreover have "cumulative e = foldl js_add (Fin 0) (map (daily_get d) (take (Suc i) ds))"
      using i len by (simp add: tot' running_totals_cumulative)
    ultimately show "cumulative e =
        foldl js_add (Fin 0) (map DailyTotal.amount (filter (\<lambda>x. date x \<le> date e) totals))"
      by simp
  qed
  have p2: "\<forall>i j. i \<le> j \<and> j < length totals \<longrightarrow>
              js_le (cumulative (totals ! i)) (cumulative (totals ! j))"
    if h: "t \<noteq> Internal \<or> (\<forall>e\<in>set totals. js_le (Fin 0) (DailyTotal.amount e))"
  proof -
    have nonneg: "\<forall>k\<in>set ds. js_le (Fin 0) (daily_get d k)"
    proof (cases "t = Internal")
      case True
      then have "\<forall>a\<in>set (map DailyTotal.amount totals). js_le (Fin 0) a" using h by simp
      then show ?thesis unfolding am by simp
    next
      case False
      have pos: "\<forall>k v. map_of d k = Some v \<longrightarrow> js_gt v (Fin 0)"
        using process_lines_daily_positive [OF False run] by simp
      show ?thesis
      proof
        fix k assume "k \<in> set ds"
        then have "k \<in> fst ` set d" by (simp add: ds_def)
        then obtain v where "map_of d k = Some v" by (metis weak_map_of_SomeI imageE prod.collapse)
        then show "js_le (Fin 0) (daily_get d k)"
          using pos js_gt_imp_le by (simp add: daily_get_def)
      qed
    qed
    have "js_le (Fin 0) (Fin 0)" by (simp add: js_le_def)
    then have sorted: "sorted_wrt js_le (Fin 0 # map cumulative totals)"
      unfolding tot' using running_totals_sorted nonneg by blast
    then have sc: "sorted_wrt js_le (map cumulative totals)" by simp
    show ?thesis
    proof (intro allI impI)
      fix i j assume ij: "i \<le> j \<and> j < length totals"
      show "js_le (cumulative (totals ! i)) (cumulative (totals ! j))"
      proof (cases "i = j")
        case True
        have "cumulative (totals ! j) \<in> set (map cumulative totals)" using ij by simp
        then have "js_le (Fin 0) (cumulative (totals ! j))" using sorted by auto
        then show ?thesis using True js_le_not_NaN js_le_refl by blast
      next
        case False
        then have "i < j" using ij by simp
        then have "js_le (map cumulative totals ! i) (map cumulative totals ! j)"
          using sc ij by (simp add: sorted_wrt_iff_nth_less)
        then show ?thesis using ij by simp
      qed
    qed
  qed
  show ?thesis using p1 p2 by blast
qed

text \<open>The pass on the example text of the eleven-column file, in mode \<open>internal\<close>.\<close>

lemma example_internal_run:
  "flush iso_date_parse Internal example_internal_csv
     = Inr (example_internal_summary, example_internal_totals)"
  by code_simp

theorem cumulative_prefix_sums_witness:
  "flush iso_date_parse Send example_csv = Inr (example_send_summary, example_send_totals)
   \<and> Send \<noteq> Internal
   \<and> js_le (cumulative (example_send_totals ! 0)) (cumulative (example_send_totals ! 2))
   \<and> cumulative (example_send_totals ! 1) =
       foldl js_add (Fin 0)
         (map DailyTotal.amount
            (filter (\<lambda>x. date x \<le> date (example_send_totals ! 1)) example_send_totals))"
proof -
  note t = cumulative_prefix_sums [OF example_send_run]
  have ne: "Send \<noteq> Internal" by simp
  have mem: "example_send_totals ! 1 \<in> set example_send_totals"
    and len: "(0::nat) \<le> 2 \<and> 2 < length example_send_totals"
    by (simp_all add: example_send_totals_def)
  have a: "js_le (cumulative (example_send_totals ! 0)) (cumulative (example_send_totals ! 2))"
    using t ne len by blast
  have b: "cumulative (example_send_totals ! 1) =
       foldl js_add (Fin 0)
         (map DailyTotal.amount
            (filter (\<lambda>x. date x \<le> date (example_send_totals ! 1)) example_send_totals))"
    using t mem by blast
  show ?thesis using example_send_run ne a b by blast
qed

text \<open>
  Claim C3 as stated fails in mode \<open>internal\<close>: in the example the third day has the
  amount \<open>-9\<close>, and the cumulative goes from \<open>8\<close> to \<open>-1\<close>.
\<close>

theorem cumulative_decreases_internal:
  "flush iso_date_parse Internal example_internal_csv
     = Inr (example_internal_summary, example_internal_totals)
   \<and> cumulative (example_internal_totals ! 1) = Fin 8
   \<and> cumulative (example_internal_totals ! 2) = Fin (- 1)
   \<and> \<not> js_le (cumulative (example_internal_totals ! 1)) (cumulative (example_internal_totals ! 2))"
  using example_internal_run by (simp add: example_internal_totals_def js_le_def)

section \<open>One line of the pass\<close>

lemma trim_empty_iff: "trim s = [] \<longleftrightarrow> (\<forall>c\<in>set s. is_ws c)"
proof -
  have "dropWhile is_ws s = [] \<longleftrightarrow> (\<forall>c\<in>set s. is_ws c)" by (simp add: dropWhile_eq_Nil_conv)
  moreover have "trim s = [] \<longleftrightarrow> dropWhile is_ws s = []"
  proof (cases "dropWhile is_ws s")
    case Nil
    show ?thesis unfolding trim_def Nil by simp
  next
    case (Cons z zs)
    then have "\<not> is_ws z" using hd_dropWhile [of is_ws s] by auto
    then have "dropWhile is_ws (rev (z # zs)) \<noteq> []" by (simp add: dropWhile_append3)
    then show ?thesis using Cons by (simp add: trim_def)
  qed
  ultimately show ?thesis by simp
qed

lemma split_no_sep: "sep \<notin> set s \<Longrightarrow> split sep s = [s]"
  by (induction s) auto

lemma is_ws_not_comma_digit: "is_ws c \<Longrightarrow> c \<noteq> CHR '','' \<and> \<not> is_digit c"
  by (auto simp: is_ws_def is_digit_def)

lemma blank_line_columns: "trim line = [] \<Longrightarrow> length (columns_of line) = 1"
proof -
  assume "trim line = []"
  then have ws: "\<forall>c\<in>set line. is_ws c" by (simp add: trim_empty_iff)
  then have "takeWhile is_digit line = []"
    using is_ws_not_comma_digit by (cases line) auto
  then have "strip_prefix line = line" by (simp add: strip_prefix_def)
  moreover have "CHR '','' \<notin> set line" using ws is_ws_not_comma_digit by blast
  ultimately show ?thesis by (simp add: columns_of_def split_no_sep)
qed

lemma js_or_candidates: "sr_amount line = first_nonzero_candidate line"
proof -
  have t: "truthy x \<longleftrightarrow> x \<noteq> NaN \<and> x \<noteq> Fin 0" for x by (cases x) auto
  show ?thesis
    by (auto simp: sr_amount_def first_nonzero_candidate_def js_or_def Let_def t)
qed

lemma process_line_sr:
  assumes "t \<noteq> Internal" and "15 \<le> length (columns_of line)"
  shows "process_line dp t line (s, d) =
           (if sr_included t line
            then processTransaction (row_from line) (row_to line) (sr_amount line) (row_time dp line) s d
            else Inr (s, d))"
proof -
  have "trim line \<noteq> []" using assms(2) blank_line_columns [of line] by auto
  moreover have "t = Send \<or> t = Receive" using assms(1) by (cases t) auto
  ultimately show ?thesis
    using assms
    by (auto simp: process_line_def Let_def sr_included_def columns_of_def row_from_def row_to_def
          sr_amount_def row_time_def)
qed

lemma process_line_sr_short:
  assumes "t \<noteq> Internal" and "\<not> 15 \<le> length (columns_of line)"
  shows "process_line dp t line (s, d) = Inr (s, d)"
  using assms by (auto simp: process_line_def Let_def columns_of_def)

lemma process_line_internal:
  assumes "11 \<le> length (columns_of line)"
  shows "process_line dp Internal line (s, d) =
           (case toISOString_date (row_time dp line) of
              None \<Rightarrow> Inl RangeError
            | Some dateKey \<Rightarrow>
                Inr (obj_set (row_hash line) (internal_entry dp line) s,
                     daily_add dateKey (internal_amount line) d))"
proof -
  have "trim line \<noteq> []" using assms blank_line_columns [of line] by auto
  then show ?thesis
    using assms
    by (simp add: process_line_def Let_def columns_of_def row_hash_def internal_entry_def
          internal_amount_def row_time_def split: option.splits)
qed

lemma process_line_internal_short:
  assumes "\<not> 11 \<le> length (columns_of line)"
  shows "process_line dp Internal line (s, d) = Inr (s, d)"
  using assms by (auto simp: process_line_def Let_def columns_of_def)

lemma date_min_same: "date_min ts ts = ts" and date_max_same: "date_max ts ts = ts"
  by (cases ts; simp add: date_min_def date_max_def)+

lemma processTransaction_accumulate:
  "processTransaction (row_from line) (row_to line) a ts s d =
     (if map_of s (row_key line) = None \<and> inherited_key (row_key line) then Inl TypeError
      else (case toISOString_date ts of
              None \<Rightarrow> Inl RangeError
            | Some dk \<Rightarrow>
                Inr (AList.update (row_key line) (accumulate (row_key line) a ts (map_of s (row_key line))) s,
                     daily_add dk a d)))"
  by (simp add: processTransaction_def row_key_def accumulate_def Let_def split: option.splits)

lemma accumulate_count:
  "count (accumulate k a ts old) = (case old of None \<Rightarrow> 0 | Some e \<Rightarrow> count e) + 1"
  by (simp add: accumulate_def Let_def split: option.splits)

lemma update_changes:
  assumes "AList.update k v s = s"
  shows "map_of s k = Some v"
proof -
  have "map_of (AList.update k v s) k = Some v" by (simp add: update_conv')
  then show ?thesis using assms by simp
qed

text \<open>
  Claim C1, amended. In the modes \<open>send\<close> and \<open>receive\<close>, for a line that splits into
  at least 15 columns: the amount of the row is the first of the two candidates (columns
  7 and 8, quotes stripped) that parses to a number other than NaN and \<open>0\<close>, and \<open>0\<close>
  when neither does; the row is included exactly when its lower-cased \<open>from\<close> (mode
  \<open>send\<close>) or \<open>to\<close> (mode \<open>receive\<close>) is the target address and that amount is greater
  than \<open>0\<close>. A row that is not included leaves the summary and the day buckets as they
  were. An included row changes the state: it adds its amount and one count to the group
  of the other party, widens the first and last date of the group, and adds its amount to
  the bucket of its day -- unless its time stamp is an invalid date or its key is a
  name inherited from \<open>Object.prototype\<close> and not yet a group, where the pass ends with
  the exception. In particular a row with the candidates \<open>100.5\<close> and \<open>200.3\<close>, sent by
  the target in mode \<open>send\<close>, gives from the empty state exactly one group, keyed by
  \<open>to\<close>, with amount \<open>100.5\<close> and count \<open>1\<close>.
\<close>

theorem send_receive_row:
  assumes "t \<noteq> Internal" and "15 \<le> length (columns_of line)"
  shows "sr_amount line = first_nonzero_candidate line
    \<and> (sr_included t line \<longleftrightarrow>
         ((t = Send \<and> row_from line = TARGET_ADDRESS) \<or> (t = Receive \<and> row_to line = TARGET_ADDRESS))
         \<and> js_gt (first_nonzero_candidate line) (Fin 0))
    \<and> (\<not> sr_included t line \<longrightarrow> process_line dp t line (s, d) = Inr (s, d))
    \<and> (sr_included t line \<longrightarrow>
         process_line dp t line (s, d) \<noteq> Inr (s, d)
         \<and> process_line dp t line (s, d) =
             (if map_of s (row_key line) = None \<and> inherited_key (row_key line) then Inl TypeError
              else (case toISOString_date (row_time dp line) of
                      None \<Rightarrow> Inl RangeError
                    | Some dk \<Rightarrow>
                        Inr (AList.update (row_key line)
                               (accumulate (row_key line) (first_nonzero_candidate line)
                                  (row_time dp line) (map_of s (row_key line))) s,
                             daily_add dk (first_nonzero_candidate line) d))))
    \<and> (t = Send \<and> row_from line = TARGET_ADDRESS
         \<and> parseFloat (unquote (columns_of line ! 7)) = Fin (201 / 2)
         \<and> parseFloat (unquote (columns_of line ! 8)) = Fin (2003 / 10)
         \<and> toISOString_date (row_time dp line) = Some dk
         \<and> \<not> inherited_key (row_to line) \<longrightarrow>
         process_lines dp t [line] ([], []) =
           Inr ([(row_to line,
                  \<lparr> to = row_to line, hash = None, amount = Fin (201 / 2), count = 1,
                    firstDate = row_time dp line, lastDate = row_time dp line \<rparr>)],
                [(dk, Fin (201 / 2))]))"
proof -
  note am = js_or_candidates [of line]
  have inc: "sr_included t line \<longleftrightarrow>
         ((t = Send \<and> row_from line = TARGET_ADDRESS) \<or> (t = Receive \<and> row_to line = TARGET_ADDRESS))
         \<and> js_gt (first_nonzero_candidate line) (Fin 0)"
    using assms(2) by (simp add: sr_included_def am)
  have step: "process_line dp t line (s', d') =
      (if sr_included t line
       then (if map_of s' (row_key line) = None \<and> inherited_key (row_key line) then Inl TypeError
             else (case toISOString_date (row_time dp line) of
                     None \<Rightarrow> Inl RangeError
                   | Some dk \<Rightarrow>
                       Inr (AList.update (row_key line)
                              (accumulate (row_key line) (first_nonzero_candidate line)
                                 (row_time dp line) (map_of s' (row_key line))) s',
                            daily_add dk (first_nonzero_candidate line) d')))
       else Inr (s', d'))" for s' d'
    using process_line_sr [OF assms] by (simp add: processTransaction_accumulate am)
  have excl: "\<not> sr_included t line \<longrightarrow> process_line dp t line (s, d) = Inr (s, d)"
    using step by simp
  have changed: "process_line dp t line (s, d) \<noteq> Inr (s, d)" if i: "sr_included t line"
  proof
    assume same: "process_line dp t line (s, d) = Inr (s, d)"
    let ?e = "accumulate (row_key line) (first_nonzero_candidate line) (row_time dp line)
                (map_of s (row_key line))"
    from same i step [of s d] have "AList.update (row_key line) ?e s = s"
      by (auto split: if_splits option.splits)
    then have "map_of s (row_key line) = Some ?e" by (rule update_changes)
    then obtain e0 where e0: "map_of s (row_key line) = Some e0"
      and eq: "accumulate (row_key line) (first_nonzero_candidate line) (row_time dp line) (Some e0) = e0"
      by simp
    have "count (accumulate (row_key line) (first_nonzero_candidate line) (row_time dp line) (Some e0))
            = count e0 + 1"
      by (simp add: accumulate_count)
    then have "count e0 = count e0 + 1" unfolding eq .
    then show False by simp
  qed
  have incl: "sr_included t line \<longrightarrow>
         process_line dp t line (s, d) \<noteq> Inr (s, d)
         \<and> process_line dp t line (s, d) =
             (if map_of s (row_key line) = None \<and> inherited_key (row_key line) then Inl TypeError
              else (case toISOString_date (row_time dp line) of
                      None \<Rightarrow> Inl RangeError
                    | Some dk \<Rightarrow>
                        Inr (AList.update (row_key line)
                               (accumulate (row_key line) (first_nonzero_candidate line)
                                  (row_time dp line) (map_of s (row_key line))) s,
                             daily_add dk (first_nonzero_candidate line) d)))"
    using changed step [of s d] by simp
  have scen: "process_lines dp t [line] ([], []) =
           Inr ([(row_to line,
                  \<lparr> to = row_to line, hash = None, amount = Fin (201 / 2), count = 1,
                    firstDate = row_time dp line, lastDate = row_time dp line \<rparr>)],
                [(dk, Fin (201 / 2))])"
    if h: "t = Send \<and> row_from line = TARGET_ADDRESS
         \<and> parseFloat (unquote (columns_of line ! 7)) = Fin (201 / 2)
         \<and> parseFloat (unquote (columns_of line ! 8)) = Fin (2003 / 10)
         \<and> toISOString_date (row_time dp line) = Some dk
         \<and> \<not> inherited_key (row_to line)"
  proof -
    have a: "first_nonzero_candidate line = Fin (201 / 2)"
      using h by (simp add: first_nonzero_candidate_def Let_def)
    have k: "row_key line = row_to line" using h by (simp add: row_key_def)
    have i: "sr_included t line" using inc h a by (simp add: js_gt_def)
    show ?thesis
      using step [of "[]" "[]"] i h a k
      by (simp add: accumulate_def daily_add_def date_min_same date_max_same)
  qed
  show ?thesis using am inc excl incl scen by blast
qed

lemma scenario_row_facts:
  "15 \<le> length (columns_of scenario_row)"
  "row_from scenario_row = TARGET_ADDRESS"
  "row_to scenario_row = ''0xaaa''"
  "parseFloat (unquote (columns_of scenario_row ! 7)) = Fin (201 / 2)"
  "parseFloat (unquote (columns_of scenario_row ! 8)) = Fin (2003 / 10)"
  "row_time iso_date_parse scenario_row = Some 1577836800000"
  "toISOString_date (row_time iso_date_parse scenario_row) = Some ''2020-01-01''"
  "\<not> inherited_key (row_to scenario_row)"
  by code_simp+

theorem send_receive_row_witness:
  "Send \<noteq> Internal \<and> 15 \<le> length (columns_of scenario_row)
   \<and> row_from scenario_row = TARGET_ADDRESS
   \<and> sr_amount scenario_row = Fin (201 / 2)
   \<and> sr_included Send scenario_row
   \<and> process_lines iso_date_parse Send [scenario_row] ([], []) =
       Inr ([(''0xaaa'',
              \<lparr> to = ''0xaaa'', hash = None, amount = Fin (201 / 2), count = 1,
                firstDate = Some 1577836800000, lastDate = Some 1577836800000 \<rparr>)],
            [(''2020-01-01'', Fin (201 / 2))])"
proof -
  have ne: "Send \<noteq> Internal" by simp
  note f = scenario_row_facts
  note t = send_receive_row [OF ne f(1), of iso_date_parse "[]" "[]" "''2020-01-01''"]
  have a: "first_nonzero_candidate scenario_row = Fin (201 / 2)"
    using f(4) by (simp add: first_nonzero_candidate_def Let_def)
  have am: "sr_amount scenario_row = Fin (201 / 2)" using t a by simp
  have inc: "sr_included Send scenario_row" using t f(2) a by (simp add: js_gt_def)
  have run: "process_lines iso_date_parse Send [scenario_row] ([], []) =
       Inr ([(row_to scenario_row,
              \<lparr> to = row_to scenario_row, hash = None, amount = Fin (201 / 2), count = 1,
                firstDate = row_time iso_date_parse scenario_row,
                lastDate = row_time iso_date_parse scenario_row \<rparr>)],
            [(''2020-01-01'', Fin (201 / 2))])"
    using t f(2,4,5,7,8) by blast
  show ?thesis using ne f(1,2) am inc run [unfolded f(3) f(6)] by blast
qed

text \<open>
  Claim C1 as stated fails: in the row below the first candidate is \<open>-5\<close> and the second
  is \<open>10\<close>, so the first candidate that is a positive number is \<open>10\<close> and the row is
  sent by the target; but the amount of the code is \<open>-5\<close> and the row is dropped.
\<close>

theorem negative_first_candidate_dropped:
  "15 \<le> length (columns_of negative_first_row)
   \<and> row_from negative_first_row = TARGET_ADDRESS
   \<and> parseFloat (unquote (columns_of negative_first_row ! 7)) = Fin (- 5)
   \<and> parseFloat (unquote (columns_of negative_first_row ! 8)) = Fin 10
   \<and> first_positive_candidate negative_first_row = Some (Fin 10)
   \<and> js_gt (Fin 10) (Fin 0)
   \<and> sr_amount negative_first_row = Fin (- 5)
   \<and> process_line iso_date_parse Send negative_first_row ([], []) = Inr ([], [])
   \<and> flush iso_date_parse Send (csv_lines [''header'', negative_first_row]) = Inr ([], [])"
  by code_simp

lemma process_line_internal_error:
  "process_line dp Internal line st = Inl e \<Longrightarrow> e = RangeError"
  by (auto simp: process_line_def Let_def split: if_splits option.splits prod.splits)

lemma process_lines_internal_throws:
  assumes "line \<in> set ls"
    and "\<And>st0. process_line dp Internal line st0 = Inl RangeError"
  shows "process_lines dp Internal ls st = Inl RangeError"
  using assms(1)
proof (induction ls arbitrary: st)
  case Nil
  then show ?case by simp
next
  case (Cons l ls)
  show ?case
  proof (cases "process_line dp Internal l st")
    case (Inl e)
    then have "e = RangeError" by (rule process_line_internal_error)
    then show ?thesis using Inl by simp
  next
    case (Inr st')
    then have "l \<noteq> line" using assms(2) [of st] by auto
    then have "line \<in> set ls" using Cons.prems by simp
    then show ?thesis using Cons.IH [of st'] Inr by simp
  qed
qed

text \<open>
  Claim C10, amended. In mode \<open>internal\<close> a row with at least 11 columns whose amount
  column (index 10) parses to NaN (it is empty or unparseable) or to \<open>0\<close> is not left
  out for its amount, which is taken as \<open>0\<close>. What the row does is decided by its date
  column alone. With a date column that gives a valid date, the row writes the summary
  entry of its hash with amount \<open>0\<close> and count \<open>1\<close> (for any hash but \<open>__proto__\<close>,
  whose assignment creates no entry and leaves the summary as it was) and adds \<open>0\<close> to
  the bucket of its day, which exists afterwards. With any other date column
  \<open>toISOString\<close> throws a RangeError: the line ends the pass, and the pass over any text
  with such a line among its data lines ends with that error and returns neither a
  summary nor a day series. In the modes \<open>send\<close> and \<open>receive\<close> a row whose amount is
  not greater than \<open>0\<close> leaves the state as it was.
\<close>

theorem internal_zero_amount_included:
  assumes "11 \<le> length (columns_of line)"
    and "parseFloat (unquote (columns_of line ! 10)) = NaN
         \<or> parseFloat (unquote (columns_of line ! 10)) = Fin 0"
  shows "internal_amount line = Fin 0
    \<and> (\<forall>dk. toISOString_date (row_time dp line) = Some dk \<longrightarrow>
          (\<exists>s' d'. process_line dp Internal line (s, d) = Inr (s', d')
             \<and> (row_hash line \<noteq> ''__proto__'' \<longrightarrow>
                  map_of s' (row_hash line) =
                    Some \<lparr> to = [], hash = Some (row_hash line), amount = Fin 0, count = 1,
                           firstDate = row_time dp line, lastDate = row_time dp line \<rparr>)
             \<and> (row_hash line = ''__proto__'' \<longrightarrow> s' = s)
             \<and> d' = daily_add dk (Fin 0) d
             \<and> map_of d' dk =
                 Some (js_add (case map_of d dk of None \<Rightarrow> Fin 0 | Some v \<Rightarrow> js_or v (Fin 0)) (Fin 0))))
    \<and> (toISOString_date (row_time dp line) = None \<longrightarrow>
          process_line dp Internal line (s, d) = Inl RangeError
          \<and> (line \<in> set (data_lines csv) \<longrightarrow> flush dp Internal csv = Inl RangeError))
    \<and> (t \<noteq> Internal \<and> 15 \<le> length (columns_of line') \<and> \<not> js_gt (sr_amount line') (Fin 0) \<longrightarrow>
         process_line dp t line' (s, d) = Inr (s, d))"
proof -
  have am: "internal_amount line = Fin 0"
    using assms(2) by (auto simp: internal_amount_def js_or_def)
  note run = process_line_internal [OF assms(1), of dp]
  have valid: "\<exists>s' d'. process_line dp Internal line (s, d) = Inr (s', d')
             \<and> (row_hash line \<noteq> ''__proto__'' \<longrightarrow>
                  map_of s' (row_hash line) =
                    Some \<lparr> to = [], hash = Some (row_hash line), amount = Fin 0, count = 1,
                           firstDate = row_time dp line, lastDate = row_time dp line \<rparr>)
             \<and> (row_hash line = ''__proto__'' \<longrightarrow> s' = s)
             \<and> d' = daily_add dk (Fin 0) d
             \<and> map_of d' dk =
                 Some (js_add (case map_of d dk of None \<Rightarrow> Fin 0 | Some v \<Rightarrow> js_or v (Fin 0)) (Fin 0))"
    if dk: "toISOString_date (row_time dp line) = Some dk" for dk
  proof -
    have r: "process_line dp Internal line (s, d) =
        Inr (obj_set (row_hash line) (internal_entry dp line) s, daily_add dk (Fin 0) d)"
      using run [of s d] dk am by simp
    have entry: "row_hash line \<noteq> ''__proto__'' \<longrightarrow>
        map_of (obj_set (row_hash line) (internal_entry dp line) s) (row_hash line) =
          Some \<lparr> to = [], hash = Some (row_hash line), amount = Fin 0, count = 1,
                 firstDate = row_time dp line, lastDate = row_time dp line \<rparr>"
      using am by (simp add: obj_set_def update_conv' internal_entry_def)
    have proto: "row_hash line = ''__proto__'' \<longrightarrow>
        obj_set (row_hash line) (internal_entry dp line) s = s"
      by (simp add: obj_set_def)
    have bucket: "map_of (daily_add dk (Fin 0) d) dk =
        Some (js_add (case map_of d dk of None \<Rightarrow> Fin 0 | Some v \<Rightarrow> js_or v (Fin 0)) (Fin 0))"
      by (simp add: daily_add_lookup)
    show ?thesis using r entry proto bucket by blast
  qed
  have invalid: "process_line dp Internal line (s, d) = Inl RangeError
          \<and> (line \<in> set (data_lines csv) \<longrightarrow> flush dp Internal csv = Inl RangeError)"
    if nd: "toISOString_date (row_time dp line) = None"
  proof -
    have one: "process_line dp Internal line st0 = Inl RangeError" for st0
      using process_line_internal [OF assms(1), of dp "fst st0" "snd st0"] nd by simp
    have "flush dp Internal csv = Inl RangeError" if "line \<in> set (data_lines csv)"
      using process_lines_internal_throws [OF that [unfolded data_lines_def] one]
      by (simp add: flush_def)
    then show ?thesis using one [of "(s, d)"] by blast
  qed
  have contrast: "t \<noteq> Internal \<and> 15 \<le> length (columns_of line') \<and> \<not> js_gt (sr_amount line') (Fin 0) \<longrightarrow>
         process_line dp t line' (s, d) = Inr (s, d)"
    using process_line_sr [of t line' dp s d] by (simp add: sr_included_def)
  show ?thesis using am valid invalid contrast by blast
qed

lemma zero_amount_row_facts:
  "11 \<le> length (columns_of zero_amount_row)"
  "parseFloat (unquote (columns_of zero_amount_row ! 10)) = NaN"
  "toISOString_date (row_time iso_date_parse zero_amount_row) = Some ''2020-01-03''"
  "row_hash zero_amount_row \<noteq> ''__proto__''"
  "row_hash zero_amount_row = ''0xh3''"
  "row_time iso_date_parse zero_amount_row = Some 1578009600000"
  "unquote (columns_of zero_amount_row ! 10) = []"
  "15 \<le> length (columns_of zero_send_row)"
  "\<not> js_gt (sr_amount zero_send_row) (Fin 0)"
  "row_from zero_send_row = TARGET_ADDRESS"
  by code_simp+

lemma proto_hash_row_facts:
  "11 \<le> length (columns_of proto_hash_row)"
  "parseFloat (unquote (columns_of proto_hash_row ! 10)) = NaN"
  "toISOString_date (row_time iso_date_parse proto_hash_row) = Some ''2020-01-03''"
  "row_hash proto_hash_row = ''__proto__''"
  by code_simp+

lemma invalid_date_row_facts:
  "11 \<le> length (columns_of invalid_date_row)"
  "parseFloat (unquote (columns_of invalid_date_row ! 10)) = NaN"
  "toISOString_date (row_time iso_date_parse invalid_date_row) = None"
  "invalid_date_row \<in> set (data_lines invalid_date_csv)"
  by code_simp+

theorem internal_zero_amount_included_witness:
  "11 \<le> length (columns_of zero_amount_row)
   \<and> unquote (columns_of zero_amount_row ! 10) = []
   \<and> parseFloat (unquote (columns_of zero_amount_row ! 10)) = NaN
   \<and> toISOString_date (row_time iso_date_parse zero_amount_row) = Some ''2020-01-03''
   \<and> process_line iso_date_parse Internal zero_amount_row ([], []) =
       Inr ([(''0xh3'', \<lparr> to = [], hash = Some ''0xh3'', amount = Fin 0, count = 1,
                          firstDate = Some 1578009600000, lastDate = Some 1578009600000 \<rparr>)],
            [(''2020-01-03'', Fin 0)])
   \<and> 11 \<le> length (columns_of proto_hash_row)
   \<and> row_hash proto_hash_row = ''__proto__''
   \<and> process_line iso_date_parse Internal proto_hash_row ([], []) = Inr ([], [(''2020-01-03'', Fin 0)])
   \<and> 11 \<le> length (columns_of invalid_date_row)
   \<and> parseFloat (unquote (columns_of invalid_date_row ! 10)) = NaN
   \<and> toISOString_date (row_time iso_date_parse invalid_date_row) = None
   \<and> invalid_date_row \<in> set (data_lines invalid_date_csv)
   \<and> process_line iso_date_parse Internal invalid_date_row ([], []) = Inl RangeError
   \<and> flush iso_date_parse Internal invalid_date_csv = Inl RangeError
   \<and> Send \<noteq> Internal \<and> 15 \<le> length (columns_of zero_send_row)
   \<and> row_from zero_send_row = TARGET_ADDRESS
   \<and> \<not> js_gt (sr_amount zero_send_row) (Fin 0)
   \<and> process_line iso_date_parse Send zero_send_row ([], []) = Inr ([], [])"
proof -
  note f = zero_amount_row_facts
  note g = proto_hash_row_facts
  note k = invalid_date_row_facts
  have k2: "parseFloat (unquote (columns_of invalid_date_row ! 10)) = NaN
         \<or> parseFloat (unquote (columns_of invalid_date_row ! 10)) = Fin 0"
    using k(2) by simp
  note w = internal_zero_amount_included [OF k(1) k2, of iso_date_parse "[]" "[]" invalid_date_csv Send zero_send_row]
  have thrown: "process_line iso_date_parse Internal invalid_date_row ([], []) = Inl RangeError"
    "flush iso_date_parse Internal invalid_date_csv = Inl RangeError"
    using w k(3) k(4) by blast+
  have ne: "Send \<noteq> Internal" by simp
  have h2: "parseFloat (unquote (columns_of zero_amount_row ! 10)) = NaN
         \<or> parseFloat (unquote (columns_of zero_amount_row ! 10)) = Fin 0"
    using f(2) by simp
  have g2: "parseFloat (unquote (columns_of proto_hash_row ! 10)) = NaN
         \<or> parseFloat (unquote (columns_of proto_hash_row ! 10)) = Fin 0"
    using g(2) by simp
  note t = internal_zero_amount_included [OF f(1) h2, of iso_date_parse "[]" "[]" "[]" Send zero_send_row]
  note u = internal_zero_amount_included [OF g(1) g2, of iso_date_parse "[]" "[]" "[]" Send zero_send_row]
  from t f(3) obtain s' d' where
    run: "process_line iso_date_parse Internal zero_amount_row ([], []) = Inr (s', d')"
    and d': "d' = daily_add ''2020-01-03'' (Fin 0) []"
    by blast
  have contrast: "process_line iso_date_parse Send zero_send_row ([], []) = Inr ([], [])"
    using t ne f(8) f(9) by blast
  have s': "s' = [(''0xh3'', \<lparr> to = [], hash = Some ''0xh3'', amount = Fin 0, count = 1,
                          firstDate = Some 1578009600000, lastDate = Some 1578009600000 \<rparr>)]"
    using run process_line_internal [OF f(1), of iso_date_parse "[]" "[]"] f(2,3,4,5,6)
    by (simp add: obj_set_def internal_entry_def internal_amount_def js_or_def)
  have zero: "process_line iso_date_parse Internal zero_amount_row ([], []) =
       Inr ([(''0xh3'', \<lparr> to = [], hash = Some ''0xh3'', amount = Fin 0, count = 1,
                          firstDate = Some 1578009600000, lastDate = Some 1578009600000 \<rparr>)],
            [(''2020-01-03'', Fin 0)])"
    using run s' d' by (simp add: daily_add_def)
  from u g(3) g(4) obtain s2 d2 where
    run2: "process_line iso_date_parse Internal proto_hash_row ([], []) = Inr (s2, d2)"
    and s2: "s2 = []" and d2: "d2 = daily_add ''2020-01-03'' (Fin 0) []"
    by blast
  have proto: "process_line iso_date_parse Internal proto_hash_row ([], []) = Inr ([], [(''2020-01-03'', Fin 0)])"
    using run2 s2 d2 by (simp add: daily_add_def)
  show ?thesis using zero proto thrown f(1,2,3,7,8,9,10) g(1,4) k ne contrast by simp
qed

text \<open>
  Claim C10 as stated fails, for it has no condition on the date: a row with eleven
  columns, an empty amount and the date column \<open>garbage\<close> produces no summary entry and
  no bucket. The line throws, and so does the pass over a text of two data rows, the
  row of the empty amount above and this one: nothing of either row is returned.
\<close>

theorem invalid_date_row_ends_pass:
  "11 \<le> length (columns_of invalid_date_row)
   \<and> unquote (columns_of invalid_date_row ! 10) = []
   \<and> parseFloat (unquote (columns_of invalid_date_row ! 10)) = NaN
   \<and> internal_amount invalid_date_row = Fin 0
   \<and> row_time iso_date_parse invalid_date_row = None
   \<and> process_line iso_date_parse Internal invalid_date_row ([], []) = Inl RangeError
   \<and> data_lines invalid_date_csv = [zero_amount_row, invalid_date_row, []]
   \<and> flush iso_date_parse Internal invalid_date_csv = Inl RangeError"
  by code_simp


section \<open>The summary of a pass in mode internal\<close>

lemma update_fresh: "k \<notin> fst ` set al \<Longrightarrow> AList.update k v al = al @ [(k, v)]"
  by (induction al) auto

lemma process_lines_internal_fold:
  "process_lines dp Internal ls (s, d) = Inr (s', d') \<Longrightarrow>
   s' = foldl (\<lambda>acc l. obj_set (row_hash l) (internal_entry dp l) acc) s
          (filter (\<lambda>l. 11 \<le> length (columns_of l)) ls)"
proof (induction ls arbitrary: s d)
  case Nil
  then show ?case by simp
next
  case (Cons l ls)
  from Cons.prems obtain s1 d1 where
    step: "process_line dp Internal l (s, d) = Inr (s1, d1)"
    and rest: "process_lines dp Internal ls (s1, d1) = Inr (s', d')"
    by (auto split: sum.splits)
  show ?case
  proof (cases "11 \<le> length (columns_of l)")
    case True
    then have "s1 = obj_set (row_hash l) (internal_entry dp l) s"
      using step process_line_internal [OF True, of dp s d] by (auto split: option.splits)
    then show ?thesis using Cons.IH [OF rest] True by simp
  next
    case False
    then have "s1 = s" using step process_line_internal_short [OF False, of dp s d] by simp
    then show ?thesis using Cons.IH [OF rest] False by simp
  qed
qed

lemma write_rows_lookup:
  "map_of (foldl (\<lambda>acc l. obj_set (h l) (e l) acc) s rows) k =
     (if k = ''__proto__'' then map_of s k
      else (case find (\<lambda>l. h l = k) (rev rows) of
              None \<Rightarrow> map_of s k
            | Some l \<Rightarrow> Some (e l)))"
proof (induction rows rule: rev_induct)
  case Nil
  then show ?case by simp
next
  case (snoc l rows)
  show ?case
  proof (cases "h l = ''__proto__''")
    case True
    then show ?thesis using snoc by (auto simp: obj_set_def)
  next
    case False
    then show ?thesis using snoc by (auto simp: obj_set_def update_conv')
  qed
qed

lemma write_rows_distinct:
  "distinct (map fst s) \<Longrightarrow>
   distinct (map fst (foldl (\<lambda>acc l. obj_set (h l) (e l) acc) s rows))"
  by (induction rows rule: rev_induct) (simp_all add: obj_set_def distinct_update)

lemma write_rows_keys:
  "fst ` set (foldl (\<lambda>acc l. obj_set (h l) (e l) acc) s rows) =
     fst ` set s \<union> (h ` set rows - {''__proto__''})"
proof (induction rows rule: rev_induct)
  case Nil
  then show ?case by simp
next
  case (snoc l rows)
  then show ?case by (auto simp: obj_set_def dom_update)
qed

lemma write_rows_fresh:
  "distinct (map h rows) \<Longrightarrow> ''__proto__'' \<notin> h ` set rows \<Longrightarrow> h ` set rows \<inter> fst ` set s = {} \<Longrightarrow>
   foldl (\<lambda>acc l. obj_set (h l) (e l) acc) s rows = s @ map (\<lambda>l. (h l, e l)) rows"
proof (induction rows arbitrary: s)
  case Nil
  then show ?case by simp
next
  case (Cons l rows)
  have fresh: "h l \<notin> fst ` set s" using Cons.prems(3) by auto
  have "h l \<noteq> ''__proto__''" using Cons.prems(2) by auto
  then have step: "obj_set (h l) (e l) s = s @ [(h l, e l)]"
    using fresh by (simp add: obj_set_def update_fresh)
  have "h ` set rows \<inter> fst ` set (s @ [(h l, e l)]) = {}"
    using Cons.prems(1,3) by auto
  then have "foldl (\<lambda>acc l. obj_set (h l) (e l) acc) (s @ [(h l, e l)]) rows
      = (s @ [(h l, e l)]) @ map (\<lambda>l. (h l, e l)) rows"
    using Cons.IH [of "s @ [(h l, e l)]"] Cons.prems(1,2) by simp
  then show ?case using step by simp
qed

text \<open>
  Claim C4, amended. In mode \<open>internal\<close> every data line with at least 11 columns
  writes the summary entry of its hash (column 0), with its own amount, count \<open>1\<close> and
  dates, in place of an entry that an earlier line wrote under the same hash. So there
  is no adding up across rows, the keys of the summary are the different hashes of the
  valid rows (but for \<open>__proto__\<close>), each entry is the entry of the last valid row with
  its hash, the number of entries is the number of different hashes, and when the hashes
  of the valid rows are pairwise different (and none is \<open>__proto__\<close>) the summary has one
  entry for each valid row, in their order.
\<close>

theorem internal_summary_entries:
  assumes "flush dp Internal csv = Inr (summary, totals)"
  shows "distinct (map fst summary)
    \<and> set (map fst summary) = row_hash ` set (internal_rows csv) - {''__proto__''}
    \<and> length summary = card (row_hash ` set (internal_rows csv) - {''__proto__''})
    \<and> (\<forall>k. map_of summary k =
          (if k = ''__proto__'' then None
           else map_option (internal_entry dp)
                  (find (\<lambda>line. row_hash line = k) (rev (internal_rows csv)))))
    \<and> (distinct (map row_hash (internal_rows csv))
         \<and> ''__proto__'' \<notin> row_hash ` set (internal_rows csv) \<longrightarrow>
         summary = map (\<lambda>line. (row_hash line, internal_entry dp line)) (internal_rows csv)
         \<and> length summary = length (internal_rows csv))"
proof -
  from assms obtain d where
    run: "process_lines dp Internal (drop 1 (split (CHR 0x0A) csv)) ([], []) = Inr (summary, d)"
    by (rule flush_Inr)
  have sm: "summary = foldl (\<lambda>acc l. obj_set (row_hash l) (internal_entry dp l) acc) []
              (internal_rows csv)"
    using process_lines_internal_fold [OF run] by (simp add: internal_rows_def data_lines_def)
  have a: "distinct (map fst summary)" unfolding sm by (rule write_rows_distinct) simp
  have b: "set (map fst summary) = row_hash ` set (internal_rows csv) - {''__proto__''}"
    unfolding sm using write_rows_keys [of row_hash "internal_entry dp" "[]" "internal_rows csv"]
    by simp
  have c: "length summary = card (row_hash ` set (internal_rows csv) - {''__proto__''})"
    using a b distinct_card [of "map fst summary"] by simp
  have e: "\<forall>k. map_of summary k =
          (if k = ''__proto__'' then None
           else map_option (internal_entry dp)
                  (find (\<lambda>line. row_hash line = k) (rev (internal_rows csv))))"
    unfolding sm by (simp add: write_rows_lookup split: option.splits)
  have f: "distinct (map row_hash (internal_rows csv))
         \<and> ''__proto__'' \<notin> row_hash ` set (internal_rows csv) \<longrightarrow>
         summary = map (\<lambda>line. (row_hash line, internal_entry dp line)) (internal_rows csv)
         \<and> length summary = length (internal_rows csv)"
    unfolding sm
    using write_rows_fresh [of row_hash "internal_rows csv" "[]" "internal_entry dp"] by simp
  show ?thesis using a b c e f by blast
qed

lemma example_distinct_run:
  "flush iso_date_parse Internal example_distinct_csv
     = Inr (example_distinct_summary, example_distinct_totals)"
  by code_simp

lemma example_distinct_rows:
  "map row_hash (internal_rows example_distinct_csv) = [''0xh1'', ''0xh2'']"
  by code_simp

theorem internal_summary_entries_witness:
  "flush iso_date_parse Internal example_distinct_csv
     = Inr (example_distinct_summary, example_distinct_totals)
   \<and> map row_hash (internal_rows example_distinct_csv) = [''0xh1'', ''0xh2'']
   \<and> length example_distinct_summary = length (internal_rows example_distinct_csv)
   \<and> example_distinct_summary =
       map (\<lambda>line. (row_hash line, internal_entry iso_date_parse line))
         (internal_rows example_distinct_csv)
   \<and> distinct (map fst example_distinct_summary)"
proof -
  note t = internal_summary_entries [OF example_distinct_run]
  have d: "distinct (map row_hash (internal_rows example_distinct_csv))"
    by (simp add: example_distinct_rows)
  have "set (map row_hash (internal_rows example_distinct_csv)) = {''0xh1'', ''0xh2''}"
    by (simp add: example_distinct_rows)
  then have p: "''__proto__'' \<notin> row_hash ` set (internal_rows example_distinct_csv)" by auto
  have a: "example_distinct_summary =
       map (\<lambda>line. (row_hash line, internal_entry iso_date_parse line))
         (internal_rows example_distinct_csv)"
    and b: "length example_distinct_summary = length (internal_rows example_distinct_csv)"
    and c: "distinct (map fst example_distinct_summary)"
    using t d p by blast+
  show ?thesis using example_distinct_run example_distinct_rows a b c by blast
qed

text \<open>
  Claim C4 as stated fails: the example has four valid rows, the first two with the same
  hash, and its summary has three entries.
\<close>

theorem duplicate_hash_one_entry:
  "flush iso_date_parse Internal example_internal_csv
     = Inr (example_internal_summary, example_internal_totals)
   \<and> map row_hash (internal_rows example_internal_csv) = [''0xh1'', ''0xh1'', ''0xh2'', ''0xh3'']
   \<and> length (internal_rows example_internal_csv) = 4
   \<and> length example_internal_summary = 3
   \<and> map fst example_internal_summary = [''0xh1'', ''0xh2'', ''0xh3'']"
proof -
  have r: "map row_hash (internal_rows example_internal_csv) = [''0xh1'', ''0xh1'', ''0xh2'', ''0xh3'']"
    by code_simp
  then have "length (map row_hash (internal_rows example_internal_csv)) = 4" by simp
  then have l: "length (internal_rows example_internal_csv) = 4" by simp
  show ?thesis using example_internal_run r l by (simp add: example_internal_summary_def)
qed

section \<open>The groups of a pass in the modes send and receive\<close>

lemma process_lines_append:
  "process_lines dp t (xs @ ys) st =
     (case process_lines dp t xs st of Inl e \<Rightarrow> Inl e | Inr st' \<Rightarrow> process_lines dp t ys st')"
  by (induction xs arbitrary: st) (auto split: sum.splits)

lemma toISOString_date_Some: "toISOString_date ts = Some dk \<Longrightarrow> \<exists>x. ts = Some x"
  by (cases ts) (simp_all add: toISOString_date_def)

lemma process_line_sr_summary:
  assumes "t \<noteq> Internal" and "process_line dp t l (s, d) = Inr (s', d')"
  shows "if sr_included t l
         then \<exists>x. row_time dp l = Some x
                \<and> s' = AList.update (row_key l)
                          (accumulate (row_key l) (sr_amount l) (Some x) (map_of s (row_key l))) s
         else s' = s"
proof (cases "15 \<le> length (columns_of l)")
  case False
  then have "\<not> sr_included t l" by (simp add: sr_included_def)
  then show ?thesis using assms process_line_sr_short [OF assms(1) False, of dp s d] by simp
next
  case True
  show ?thesis
  proof (cases "sr_included t l")
    case False
    then show ?thesis using assms process_line_sr [OF assms(1) True, of dp s d] by simp
  next
    case inc: True
    from assms(2) process_line_sr [OF assms(1) True, of dp s d] inc
    have pt: "processTransaction (row_from l) (row_to l) (sr_amount l) (row_time dp l) s d = Inr (s', d')"
      by simp
    then obtain dk where dk: "toISOString_date (row_time dp l) = Some dk"
      and s': "s' = AList.update (row_key l)
                 (accumulate (row_key l) (sr_amount l) (row_time dp l) (map_of s (row_key l))) s"
      unfolding processTransaction_accumulate by (auto split: if_splits option.splits)
    from toISOString_date_Some [OF dk] obtain x where "row_time dp l = Some x" by blast
    then show ?thesis using inc s' by simp
  qed
qed

lemma group_of_iff:
  "group_of dp rows e \<longleftrightarrow>
     rows \<noteq> []
     \<and> Transaction.amount e = foldl js_add (Fin 0) (map sr_amount rows)
     \<and> count e = length rows
     \<and> (\<exists>f l. firstDate e = Some f \<and> lastDate e = Some l
           \<and> (\<forall>r\<in>set rows. \<exists>y. row_time dp r = Some y \<and> f \<le> y \<and> y \<le> l)
           \<and> (\<exists>r\<in>set rows. row_time dp r = Some f)
           \<and> (\<exists>r\<in>set rows. row_time dp r = Some l))"
proof -
  have inner: "(case row_time dp r of Some y \<Rightarrow> f \<le> y \<and> y \<le> l | None \<Rightarrow> False)
      \<longleftrightarrow> (\<exists>y. row_time dp r = Some y \<and> f \<le> y \<and> y \<le> l)" for r f l
    by (cases "row_time dp r") simp_all
  show ?thesis
    unfolding group_of_def
    by (cases "firstDate e"; cases "lastDate e") (simp_all add: list_all_iff list_ex_iff inner)
qed

lemma group_of_first:
  "row_time dp l = Some x \<Longrightarrow> group_of dp [l] (accumulate k (sr_amount l) (Some x) None)"
  by (simp add: group_of_iff accumulate_def date_min_def date_max_def js_add_zero_left)

lemma group_of_snoc:
  assumes "group_of dp rows e" and "row_time dp l = Some x"
  shows "group_of dp (rows @ [l]) (accumulate k (sr_amount l) (Some x) (Some e))"
proof -
  from assms(1) obtain f la where
    fl: "firstDate e = Some f" "lastDate e = Some la"
    and allr: "\<forall>r\<in>set rows. \<exists>y. row_time dp r = Some y \<and> f \<le> y \<and> y \<le> la"
    and exf: "\<exists>r\<in>set rows. row_time dp r = Some f"
    and exl: "\<exists>r\<in>set rows. row_time dp r = Some la"
    and am: "Transaction.amount e = foldl js_add (Fin 0) (map sr_amount rows)"
    and cn: "count e = length rows"
    unfolding group_of_iff by blast
  let ?e' = "accumulate k (sr_amount l) (Some x) (Some e)"
  have d1: "firstDate ?e' = Some (min f x)" and d2: "lastDate ?e' = Some (max la x)"
    using fl by (simp_all add: accumulate_def date_min_def date_max_def)
  have a': "Transaction.amount ?e' = foldl js_add (Fin 0) (map sr_amount (rows @ [l]))"
    using am by (simp add: accumulate_def)
  have c': "count ?e' = length (rows @ [l])" using cn by (simp add: accumulate_def)
  have all': "\<forall>r\<in>set (rows @ [l]). \<exists>y. row_time dp r = Some y \<and> min f x \<le> y \<and> y \<le> max la x"
    using allr assms(2) by (auto simp: min_def max_def)
  have exf': "\<exists>r\<in>set (rows @ [l]). row_time dp r = Some (min f x)"
    using exf assms(2) by (auto simp: min_def)
  have exl': "\<exists>r\<in>set (rows @ [l]). row_time dp r = Some (max la x)"
    using exl assms(2) by (auto simp: max_def)
  have "rows @ [l] \<noteq> []" by simp
  then show ?thesis
    unfolding group_of_iff using d1 d2 a' c' all' exf' exl' by blast
qed

lemma seen_rows_snoc:
  "seen_rows t (ls @ [l]) k =
     (if sr_included t l \<and> row_key l = k then seen_rows t ls k @ [l] else seen_rows t ls k)"
  by (simp add: seen_rows_def)

lemma sr_groups:
  "t \<noteq> Internal \<Longrightarrow> process_lines dp t ls ([], []) = Inr (s, d) \<Longrightarrow>
   (case map_of s k of None \<Rightarrow> seen_rows t ls k = [] | Some e \<Rightarrow> group_of dp (seen_rows t ls k) e)"
proof (induction ls arbitrary: s d k rule: rev_induct)
  case Nil
  then show ?case by (simp add: seen_rows_def)
next
  case (snoc l ls)
  from snoc.prems(2) obtain s0 d0 where
    before: "process_lines dp t ls ([], []) = Inr (s0, d0)"
    and step: "process_line dp t l (s0, d0) = Inr (s, d)"
    by (auto simp: process_lines_append split: sum.splits)
  note ih = snoc.IH [OF snoc.prems(1) before]
  note ps = process_line_sr_summary [OF snoc.prems(1) step]
  show ?case
  proof (cases "sr_included t l")
    case False
    then show ?thesis using ps ih [of k] by (simp add: seen_rows_snoc split: option.splits)
  next
    case True
    then obtain x where x: "row_time dp l = Some x"
      and s: "s = AList.update (row_key l)
                  (accumulate (row_key l) (sr_amount l) (Some x) (map_of s0 (row_key l))) s0"
      using ps by auto
    show ?thesis
    proof (cases "row_key l = k")
      case False
      then have "map_of s k = map_of s0 k" using s by (simp add: update_conv')
      then show ?thesis using ih [of k] False by (simp add: seen_rows_snoc split: option.splits)
    next
      case key: True
      have look: "map_of s k = Some (accumulate k (sr_amount l) (Some x) (map_of s0 k))"
        using s key by (simp add: update_conv')
      show ?thesis
      proof (cases "map_of s0 k")
        case None
        then have "seen_rows t ls k = []" using ih [of k] by simp
        then show ?thesis
          using look None True key group_of_first [OF x, of k] by (simp add: seen_rows_snoc)
      next
        case (Some e)
        then have "group_of dp (seen_rows t ls k) e" using ih [of k] by simp
        then show ?thesis
          using look Some True key group_of_snoc [OF _ x, of "seen_rows t ls k" e k]
          by (simp add: seen_rows_snoc)
      qed
    qed
  qed
qed

lemma foldl_js_add_mono:
  "\<forall>a\<in>set as. js_gt a (Fin 0) \<Longrightarrow> js_le (Fin 0) c \<Longrightarrow>
   js_le c (foldl js_add c as) \<and> js_le (Fin 0) (foldl js_add c as)"
proof (induction as arbitrary: c)
  case Nil
  then show ?case using js_le_refl js_le_not_NaN by auto
next
  case (Cons a as)
  have a: "js_le (Fin 0) a" using Cons.prems(1) js_gt_imp_le by simp
  have step: "js_le c (js_add c a)" "js_le (Fin 0) (js_add c a)"
    using js_add_nonneg [OF Cons.prems(2) a] by simp_all
  have "js_le (js_add c a) (foldl js_add (js_add c a) as) \<and> js_le (Fin 0) (foldl js_add (js_add c a) as)"
    using Cons.IH [OF _ step(2)] Cons.prems(1) by simp
  then show ?case using step(1) js_le_trans by auto
qed

lemma seen_rows_positive: "\<forall>r\<in>set (seen_rows t ls k). js_gt (sr_amount r) (Fin 0)"
  by (auto simp: seen_rows_def sr_included_def)

text \<open>
  Claim C5, amended. During a pass in mode \<open>send\<close> or \<open>receive\<close>, at every point (after
  any lines \<open>xs\<close>) the entry of a key is the group of the rows seen so far for the key:
  its amount is their sum, its count their number, and its first and last date are the
  least and the greatest of their time stamps, so that they bound every time stamp seen
  for the key. At every later point (after further lines \<open>ys\<close>) the key still has an
  entry, its amount and count are not smaller, its first date is not later and its last
  date not earlier. In mode \<open>internal\<close> an entry is overwritten by each row with its
  hash, and none of this holds there.
\<close>

theorem group_accumulation_monotone:
  assumes "t \<noteq> Internal"
    and "process_lines dp t xs ([], []) = Inr (s1, d1)"
    and "process_lines dp t ys (s1, d1) = Inr (s2, d2)"
    and "map_of s1 k = Some e1"
  shows "group_of dp (seen_rows t xs k) e1
    \<and> (\<exists>e2. map_of s2 k = Some e2
          \<and> group_of dp (seen_rows t (xs @ ys) k) e2
          \<and> js_le (Transaction.amount e1) (Transaction.amount e2)
          \<and> count e1 \<le> count e2
          \<and> (\<exists>f1 l1 f2 l2. firstDate e1 = Some f1 \<and> lastDate e1 = Some l1
                \<and> firstDate e2 = Some f2 \<and> lastDate e2 = Some l2 \<and> f2 \<le> f1 \<and> l1 \<le> l2))"
proof -
  let ?A = "seen_rows t xs k" and ?B = "seen_rows t ys k"
  have app: "seen_rows t (xs @ ys) k = ?A @ ?B" by (simp add: seen_rows_def)
  have g1: "group_of dp ?A e1" using sr_groups [OF assms(1,2), of k] assms(4) by simp
  have run2: "process_lines dp t (xs @ ys) ([], []) = Inr (s2, d2)"
    using assms(2,3) by (simp add: process_lines_append)
  have ne: "?A \<noteq> []" using g1 by (simp add: group_of_iff)
  obtain e2 where e2: "map_of s2 k = Some e2" and g2: "group_of dp (?A @ ?B) e2"
    using sr_groups [OF assms(1) run2, of k] ne app by (cases "map_of s2 k") auto
  have am1: "Transaction.amount e1 = foldl js_add (Fin 0) (map sr_amount ?A)"
    and am2: "Transaction.amount e2 = foldl js_add (Transaction.amount e1) (map sr_amount ?B)"
    using g1 g2 by (simp_all add: group_of_iff)
  have "js_le (Fin 0) (Transaction.amount e1)"
    unfolding am1 using foldl_js_add_mono [of "map sr_amount ?A" "Fin 0"] seen_rows_positive [of t xs k]
    by (simp add: js_le_def)
  then have mono: "js_le (Transaction.amount e1) (Transaction.amount e2)"
    unfolding am2 using foldl_js_add_mono [of "map sr_amount ?B"] seen_rows_positive [of t ys k]
    by simp
  have cnt: "count e1 \<le> count e2" using g1 g2 by (simp add: group_of_iff)
  from g1 obtain f1 l1 where
    d1: "firstDate e1 = Some f1" "lastDate e1 = Some l1"
    and exf: "\<exists>r\<in>set ?A. row_time dp r = Some f1" and exl: "\<exists>r\<in>set ?A. row_time dp r = Some l1"
    unfolding group_of_iff by blast
  from g2 obtain f2 l2 where
    d2: "firstDate e2 = Some f2" "lastDate e2 = Some l2"
    and all2: "\<forall>r\<in>set (?A @ ?B). \<exists>y. row_time dp r = Some y \<and> f2 \<le> y \<and> y \<le> l2"
    unfolding group_of_iff by blast
  have "f2 \<le> f1"
  proof -
    from exf obtain r where r: "r \<in> set ?A" "row_time dp r = Some f1" by blast
    then have "r \<in> set (?A @ ?B)" by simp
    with all2 obtain y where "row_time dp r = Some y" "f2 \<le> y" by blast
    then show ?thesis using r(2) by simp
  qed
  moreover have "l1 \<le> l2"
  proof -
    from exl obtain r where r: "r \<in> set ?A" "row_time dp r = Some l1" by blast
    then have "r \<in> set (?A @ ?B)" by simp
    with all2 obtain y where "row_time dp r = Some y" "y \<le> l2" by blast
    then show ?thesis using r(2) by simp
  qed
  ultimately have dates: "\<exists>f1 l1 f2 l2. firstDate e1 = Some f1 \<and> lastDate e1 = Some l1
                \<and> firstDate e2 = Some f2 \<and> lastDate e2 = Some l2 \<and> f2 \<le> f1 \<and> l1 \<le> l2"
    using d1 d2 by blast
  have "group_of dp (seen_rows t (xs @ ys) k) e2" using g2 app by simp
  then show ?thesis using g1 e2 mono cnt dates by blast
qed

text \<open>The example pass in mode \<open>send\<close>, in two parts.\<close>

lemma example_first_run:
  "process_lines iso_date_parse Send example_first_rows ([], [])
     = Inr (example_first_summary, example_first_daily)"
  by code_simp

lemma example_later_run:
  "process_lines iso_date_parse Send example_later_rows (example_first_summary, example_first_daily)
     = Inr (example_send_summary, example_send_daily)"
  by code_simp

theorem group_accumulation_monotone_witness:
  "Send \<noteq> Internal
   \<and> process_lines iso_date_parse Send example_first_rows ([], [])
       = Inr (example_first_summary, example_first_daily)
   \<and> process_lines iso_date_parse Send example_later_rows (example_first_summary, example_first_daily)
       = Inr (example_send_summary, example_send_daily)
   \<and> map_of example_first_summary ''0xaaa'' =
       Some \<lparr> to = ''0xaaa'', hash = None, amount = Fin 10, count = 1,
              firstDate = Some 1577836800000, lastDate = Some 1577836800000 \<rparr>
   \<and> map_of example_send_summary ''0xaaa'' =
       Some \<lparr> to = ''0xaaa'', hash = None, amount = Fin (25 / 2), count = 2,
              firstDate = Some 1577750400000, lastDate = Some 1577836800000 \<rparr>
   \<and> js_le (Fin 10) (Fin (25 / 2))
   \<and> group_of iso_date_parse (seen_rows Send example_first_rows ''0xaaa'')
        \<lparr> to = ''0xaaa'', hash = None, amount = Fin 10, count = 1,
          firstDate = Some 1577836800000, lastDate = Some 1577836800000 \<rparr>
   \<and> group_of iso_date_parse (seen_rows Send (example_first_rows @ example_later_rows) ''0xaaa'')
        \<lparr> to = ''0xaaa'', hash = None, amount = Fin (25 / 2), count = 2,
          firstDate = Some 1577750400000, lastDate = Some 1577836800000 \<rparr>"
proof -
  let ?e1 = "\<lparr> to = ''0xaaa'', hash = None, amount = Fin 10, count = 1,
              firstDate = Some 1577836800000, lastDate = Some 1577836800000 \<rparr>"
  let ?e2 = "\<lparr> to = ''0xaaa'', hash = None, amount = Fin (25 / 2), count = 2,
              firstDate = Some 1577750400000, lastDate = Some 1577836800000 \<rparr>"
  have ne: "Send \<noteq> Internal" by simp
  have m1: "map_of example_first_summary ''0xaaa'' = Some ?e1"
    by (simp add: example_first_summary_def)
  have m2: "map_of example_send_summary ''0xaaa'' = Some ?e2"
    by (simp add: example_send_summary_def)
  from group_accumulation_monotone [OF ne example_first_run example_later_run m1]
  obtain e2 where g1: "group_of iso_date_parse (seen_rows Send example_first_rows ''0xaaa'') ?e1"
    and e2: "map_of example_send_summary ''0xaaa'' = Some e2"
    and g2: "group_of iso_date_parse (seen_rows Send (example_first_rows @ example_later_rows) ''0xaaa'') e2"
    and le: "js_le (Transaction.amount ?e1) (Transaction.amount e2)"
    by blast
  have eq: "e2 = ?e2" using e2 m2 by simp
  have le': "js_le (Fin 10) (Fin (25 / 2))" using le unfolding eq by simp
  show ?thesis using ne example_first_run example_later_run m1 m2 le' g1 g2 [unfolded eq] by blast
qed

text \<open>
  Claim C5 as stated fails in mode \<open>internal\<close>: two rows with the same hash, the second
  with the smaller amount and the earlier date. The amount of the key goes from \<open>5\<close> to
  \<open>3\<close>, and its last date then is before the time stamp of the first row.
\<close>

theorem internal_overwrite_not_monotone:
  "process_lines iso_date_parse Internal [internal_row ''0xh1'' ''2020-01-02'' ''5''] ([], [])
     = Inr ([(''0xh1'', \<lparr> to = [], hash = Some ''0xh1'', amount = Fin 5, count = 1,
                          firstDate = Some 1577923200000, lastDate = Some 1577923200000 \<rparr>)],
            [(''2020-01-02'', Fin 5)])
   \<and> process_lines iso_date_parse Internal [internal_row ''0xh1'' ''2020-01-01'' ''3'']
       ([(''0xh1'', \<lparr> to = [], hash = Some ''0xh1'', amount = Fin 5, count = 1,
                      firstDate = Some 1577923200000, lastDate = Some 1577923200000 \<rparr>)],
        [(''2020-01-02'', Fin 5)])
     = Inr ([(''0xh1'', \<lparr> to = [], hash = Some ''0xh1'', amount = Fin 3, count = 1,
                          firstDate = Some 1577836800000, lastDate = Some 1577836800000 \<rparr>)],
            [(''2020-01-02'', Fin 5), (''2020-01-01'', Fin 3)])
   \<and> \<not> js_le (Fin 5) (Fin 3)
   \<and> row_time iso_date_parse (internal_row ''0xh1'' ''2020-01-02'' ''5'') = Some 1577923200000
   \<and> \<not> (1577923200000 \<le> (1577836800000 :: int))"
  by code_simp

end
